theory Spec2Isabelle
  imports Main "HOL-Library.Word" "HOL-Library.AList" "HOL-Library.Sublist"
begin

unbundle bit_operations_syntax

section \<open>JavaScript strings\<close>

text \<open>
  A JavaScript string is a sequence of 16-bit UTF-16 code units. The source compares,
  trims and pattern-matches strings code unit by code unit (its regular expression has
  no \<open>u\<close> flag), so a string is a list of 16-bit words. \<open>ascii\<close> writes a literal of
  the source whose characters are all ASCII.
\<close>

type_synonym cu = "16 word"
type_synonym jsstring = "cu list"

definition ascii :: "string \<Rightarrow> jsstring" where
  "ascii s = map (\<lambda>c. of_nat (of_char c)) s"

text \<open>
  \<open>String.prototype.trim\<close> removes leading and trailing WhiteSpace and LineTerminator
  code points: TAB, VT, FF, SP, NBSP, ZWNBSP and the Unicode space separators
  (category Zs), and LF, CR, LS, PS.
\<close>

definition is_line_terminator :: "cu \<Rightarrow> bool" where
  "is_line_terminator c = (c = 0x000A \<or> c = 0x000D \<or> c = 0x2028 \<or> c = 0x2029)"

definition is_white_space :: "cu \<Rightarrow> bool" where
  "is_white_space c =
     (c = 0x0009 \<or> c = 0x000B \<or> c = 0x000C \<or> c = 0x0020 \<or> c = 0x00A0 \<or> c = 0xFEFF \<or>
      c = 0x1680 \<or> (0x2000 \<le> c \<and> c \<le> 0x200A) \<or> c = 0x202F \<or> c = 0x205F \<or> c = 0x3000)"

definition trims :: "cu \<Rightarrow> bool" where
  "trims c = (is_white_space c \<or> is_line_terminator c)"

definition trim :: "jsstring \<Rightarrow> jsstring" where
  "trim s = rev (dropWhile trims (rev (dropWhile trims s)))"

text \<open>The truth value of a string: only the empty string is falsy.\<close>

definition truthy :: "jsstring \<Rightarrow> bool" where
  "truthy s = (s \<noteq> [])"

section \<open>The regular expression of extractRegionFromLambdaArn\<close>

text \<open>
  The pattern \<^verbatim>\<open>/^arn:aws:lambda:([a-z0-9-]+):\d+:function:.+$/\<close> is a sequence of
  pieces, each a single character or a greedy one-or-more repetition of a character
  class; one repetition is capture group 1. \<open>rmatch\<close> is the backtracking matcher
  anchored at both ends (\<open>^\<close> and \<open>$\<close>, no \<open>m\<close> flag): a repetition first tries to
  take one more character and falls back to the rest of the pattern. It returns the
  text of group 1 on a match and \<open>None\<close> where \<open>String.prototype.match\<close> returns null.
\<close>

datatype atom =
    Chr cu          \<comment> \<open>a literal character\<close>
  | Region_class    \<comment> \<open>\<^verbatim>\<open>[a-z0-9-]\<close>\<close>
  | Digit           \<comment> \<open>\<^verbatim>\<open>\d\<close>\<close>
  | Dot             \<comment> \<open>\<^verbatim>\<open>.\<close> without the \<open>s\<close> flag\<close>

datatype piece =
    Once atom       \<comment> \<open>one character\<close>
  | Plus atom       \<comment> \<open>\<^verbatim>\<open>a+\<close>\<close>
  | Group_plus atom \<comment> \<open>\<^verbatim>\<open>(a+)\<close>, the capture group\<close>

definition is_digit :: "cu \<Rightarrow> bool" where
  "is_digit c = (0x30 \<le> c \<and> c \<le> 0x39)"

definition is_region_char :: "cu \<Rightarrow> bool" where
  "is_region_char c = ((0x61 \<le> c \<and> c \<le> 0x7A) \<or> (0x30 \<le> c \<and> c \<le> 0x39) \<or> c = 0x2D)"

fun atom_matches :: "atom \<Rightarrow> cu \<Rightarrow> bool" where
  "atom_matches (Chr d) c = (c = d)"
| "atom_matches Region_class c = is_region_char c"
| "atom_matches Digit c = is_digit c"
| "atom_matches Dot c = (\<not> is_line_terminator c)"

fun rmatch :: "piece list \<Rightarrow> jsstring \<Rightarrow> jsstring option" where
  "rmatch [] s = (if s = [] then Some [] else None)"
| "rmatch (p # ps) [] = None"
| "rmatch (Once a # ps) (c # s) = (if atom_matches a c then rmatch ps s else None)"
| "rmatch (Plus a # ps) (c # s) =
     (if atom_matches a c
      then (case rmatch (Plus a # ps) s of Some g \<Rightarrow> Some g | None \<Rightarrow> rmatch ps s)
      else None)"
| "rmatch (Group_plus a # ps) (c # s) =
     (if atom_matches a c
      then (case rmatch (Group_plus a # ps) s of
              Some g \<Rightarrow> Some (c # g)
            | None \<Rightarrow> (case rmatch ps s of Some g \<Rightarrow> Some (c # g) | None \<Rightarrow> None))
      else None)"

definition lit :: "string \<Rightarrow> piece list" where
  "lit s = map (\<lambda>c. Once (Chr c)) (ascii s)"

definition arnPattern :: "piece list" where
  "arnPattern =
     lit ''arn:aws:lambda:'' @ [Group_plus Region_class] @ lit '':'' @ [Plus Digit] @
     lit '':function:'' @ [Plus Dot]"

definition extractRegionFromLambdaArn :: "jsstring \<Rightarrow> jsstring" where
  "extractRegionFromLambdaArn arn =
     (case rmatch arnPattern arn of
        Some g \<Rightarrow> if truthy g then g else []
      | None \<Rightarrow> [])"

section \<open>JSON text\<close>

text \<open>
  \<open>localStorage\<close> holds strings; the component writes \<^verbatim>\<open>JSON.stringify(config)\<close> and
  reads it back with \<^verbatim>\<open>JSON.parse\<close>. Both are the platform's. They are modelled on the
  values a configuration is made of: objects, strings, booleans and null. An object is
  its list of members in order.
\<close>

datatype json = JNull | JBool bool | JStr jsstring | JObj "(jsstring \<times> json) list"

text \<open>
  \<open>SyntaxError\<close> is the exception of \<^verbatim>\<open>JSON.parse\<close>. \<open>Unmodelled\<close> marks a stored text
  outside the model (it holds a number or an array, or its value lacks the shape of a
  configuration): the model stops there and no theorem speaks about such a text.
\<close>

datatype error = SyntaxError | Unmodelled

subsection \<open>JSON.stringify\<close>

text \<open>
  QuoteJSONString: the two-character escapes, \<^verbatim>\<open>\uXXXX\<close> with lowercase digits for the
  other control characters and for a surrogate that is not part of a pair, and every
  other code unit as it is.
\<close>

definition hex_digit :: "cu \<Rightarrow> cu" where
  "hex_digit n = (if n < 10 then 0x30 + n else 0x57 + n)"

definition unicode_escape :: "cu \<Rightarrow> jsstring" where
  "unicode_escape c =
     [0x5C, 0x75, hex_digit (drop_bit 12 c), hex_digit (take_bit 4 (drop_bit 8 c)),
      hex_digit (take_bit 4 (drop_bit 4 c)), hex_digit (take_bit 4 c)]"

definition is_high_surrogate :: "cu \<Rightarrow> bool" where
  "is_high_surrogate c = (0xD800 \<le> c \<and> c \<le> 0xDBFF)"

definition is_low_surrogate :: "cu \<Rightarrow> bool" where
  "is_low_surrogate c = (0xDC00 \<le> c \<and> c \<le> 0xDFFF)"

definition quote_unit :: "cu \<Rightarrow> jsstring" where
  "quote_unit c =
     (if c = 0x08 then [0x5C, 0x62]
      else if c = 0x09 then [0x5C, 0x74]
      else if c = 0x0A then [0x5C, 0x6E]
      else if c = 0x0C then [0x5C, 0x66]
      else if c = 0x0D then [0x5C, 0x72]
      else if c = 0x22 then [0x5C, 0x22]
      else if c = 0x5C then [0x5C, 0x5C]
      else if c < 0x20 \<or> is_high_surrogate c \<or> is_low_surrogate c then unicode_escape c
      else [c])"

fun quote_units :: "jsstring \<Rightarrow> jsstring" where
  "quote_units [] = []"
| "quote_units [c] = quote_unit c"
| "quote_units (c # d # s) =
     (if is_high_surrogate c \<and> is_low_surrogate d then c # d # quote_units s
      else quote_unit c @ quote_units (d # s))"

definition QuoteJSONString :: "jsstring \<Rightarrow> jsstring" where
  "QuoteJSONString s = 0x22 # quote_units s @ [0x22]"

text \<open>Without a replacer and without indentation: no white space between tokens.\<close>

fun JSON_stringify :: "json \<Rightarrow> jsstring"
  and stringify_members :: "(jsstring \<times> json) list \<Rightarrow> jsstring" where
  "JSON_stringify JNull = ascii ''null''"
| "JSON_stringify (JBool b) = (if b then ascii ''true'' else ascii ''false'')"
| "JSON_stringify (JStr s) = QuoteJSONString s"
| "JSON_stringify (JObj ms) = 0x7B # stringify_members ms @ [0x7D]"
| "stringify_members [] = []"
| "stringify_members [(k, v)] = QuoteJSONString k @ 0x3A # JSON_stringify v"
| "stringify_members ((k, v) # m # ms) =
     QuoteJSONString k @ 0x3A # JSON_stringify v @ 0x2C # stringify_members (m # ms)"

subsection \<open>JSON.parse\<close>

text \<open>
  A string literal, read after its opening quote: up to the closing quote, with the
  escapes of the JSON grammar (hexadecimal digits in either case) and no raw control
  character. The result is the string and the text after the closing quote.
\<close>

definition hex_value :: "cu \<Rightarrow> cu option" where
  "hex_value h =
     (if 0x30 \<le> h \<and> h \<le> 0x39 then Some (h - 0x30)
      else if 0x61 \<le> h \<and> h \<le> 0x66 then Some (h - 0x57)
      else if 0x41 \<le> h \<and> h \<le> 0x46 then Some (h - 0x37)
      else None)"

definition hex4 :: "cu \<Rightarrow> cu \<Rightarrow> cu \<Rightarrow> cu \<Rightarrow> cu option" where
  "hex4 h1 h2 h3 h4 =
     (case (hex_value h1, hex_value h2, hex_value h3, hex_value h4) of
        (Some a, Some b, Some c, Some d) \<Rightarrow>
          Some (push_bit 12 a OR push_bit 8 b OR push_bit 4 c OR d)
      | _ \<Rightarrow> None)"

definition unescape :: "cu \<Rightarrow> cu option" where
  "unescape e =
     (if e = 0x22 then Some 0x22
      else if e = 0x5C then Some 0x5C
      else if e = 0x2F then Some 0x2F
      else if e = 0x62 then Some 0x08
      else if e = 0x66 then Some 0x0C
      else if e = 0x6E then Some 0x0A
      else if e = 0x72 then Some 0x0D
      else if e = 0x74 then Some 0x09
      else None)"

definition cons_unit ::
  "cu \<Rightarrow> error + jsstring \<times> jsstring \<Rightarrow> error + jsstring \<times> jsstring" where
  "cons_unit u r = (case r of Inl e \<Rightarrow> Inl e | Inr (str, rest) \<Rightarrow> Inr (u # str, rest))"

fun scan_string :: "jsstring \<Rightarrow> error + jsstring \<times> jsstring" where
  "scan_string [] = Inl SyntaxError"
| "scan_string (c # s) =
     (if c = 0x22 then Inr ([], s)
      else if c = 0x5C then
        (case s of
           [] \<Rightarrow> Inl SyntaxError
         | e # s1 \<Rightarrow>
             if e = 0x75 then
               (case s1 of
                  h1 # h2 # h3 # h4 # s2 \<Rightarrow>
                    (case hex4 h1 h2 h3 h4 of
                       None \<Rightarrow> Inl SyntaxError
                     | Some u \<Rightarrow> cons_unit u (scan_string s2))
                | _ \<Rightarrow> Inl SyntaxError)
             else (case unescape e of
                     None \<Rightarrow> Inl SyntaxError
                   | Some u \<Rightarrow> cons_unit u (scan_string s1)))
      else if c < 0x20 then Inl SyntaxError
      else cons_unit c (scan_string s))"

lemma cons_unit_Inr:
  "cons_unit u r = Inr (str, rest) \<Longrightarrow> \<exists>str'. r = Inr (str', rest) \<and> str = u # str'"
  by (auto simp: cons_unit_def split: sum.splits)

lemma scan_string_length: "scan_string s = Inr (str, rest) \<Longrightarrow> length rest < length s"
proof (induction s arbitrary: str rule: scan_string.induct)
  case 1
  then show ?case by simp
next
  case (2 c s)
  show ?case
  proof (cases "c = 0x22")
    case True
    with "2.prems" show ?thesis by simp
  next
    case quote: False
    show ?thesis
    proof (cases "c = 0x5C")
      case False
      with quote "2.prems" have lt: "\<not> c < 0x20" and r: "cons_unit c (scan_string s) = Inr (str, rest)"
        by (auto split: if_splits)
      from cons_unit_Inr [OF r] obtain str' where "scan_string s = Inr (str', rest)" by blast
      with "2.IH"(3) quote False lt show ?thesis by fastforce
    next
      case True
      show ?thesis
      proof (cases s)
        case Nil
        with True quote "2.prems" show ?thesis by simp
      next
        case (Cons e s1)
        show ?thesis
        proof (cases "e = 0x75")
          case False
          with quote True Cons "2.prems" obtain u where u: "unescape e = Some u"
            and r: "cons_unit u (scan_string s1) = Inr (str, rest)"
            by (auto split: option.splits)
          from cons_unit_Inr [OF r] obtain str' where "scan_string s1 = Inr (str', rest)" by blast
          with "2.IH"(2) [OF quote True Cons False u] Cons show ?thesis by fastforce
        next
          case u: True
          with quote True Cons "2.prems" obtain h1 h2 h3 h4 s2 v where
            s1: "s1 = h1 # h2 # h3 # h4 # s2" and v: "hex4 h1 h2 h3 h4 = Some v"
            and r: "cons_unit v (scan_string s2) = Inr (str, rest)"
            by (auto split: list.splits option.splits)
          from cons_unit_Inr [OF r] obtain str' where "scan_string s2 = Inr (str', rest)" by blast
          with "2.IH"(1) [OF quote True Cons u s1 refl refl refl v] Cons s1 show ?thesis
            by fastforce
        qed
      qed
    qed
  qed
qed

text \<open>
  The tokens of the text. White space (space, TAB, LF, CR) separates tokens. The scan
  stops at the first character of a number or an array with the token \<open>TUnmodelled\<close>.
\<close>

datatype token =
    LBrace | RBrace | Colon | Comma | TString jsstring | TTrue | TFalse | TNull | TUnmodelled

definition is_json_ws :: "cu \<Rightarrow> bool" where
  "is_json_ws c = (c = 0x20 \<or> c = 0x09 \<or> c = 0x0A \<or> c = 0x0D)"

definition cons_token :: "token \<Rightarrow> error + token list \<Rightarrow> error + token list" where
  "cons_token t r = (case r of Inl e \<Rightarrow> Inl e | Inr ts \<Rightarrow> Inr (t # ts))"

function lex :: "jsstring \<Rightarrow> error + token list" where
  "lex [] = Inr []"
| "lex (c # s) =
     (if is_json_ws c then lex s
      else if c = 0x7B then cons_token LBrace (lex s)
      else if c = 0x7D then cons_token RBrace (lex s)
      else if c = 0x3A then cons_token Colon (lex s)
      else if c = 0x2C then cons_token Comma (lex s)
      else if c = 0x22 then
        (case scan_string s of
           Inl e \<Rightarrow> Inl e
         | Inr (str, rest) \<Rightarrow> cons_token (TString str) (lex rest))
      else if prefix (ascii ''true'') (c # s) then cons_token TTrue (lex (drop 3 s))
      else if prefix (ascii ''false'') (c # s) then cons_token TFalse (lex (drop 4 s))
      else if prefix (ascii ''null'') (c # s) then cons_token TNull (lex (drop 3 s))
      else if c = 0x5B \<or> c = 0x2D \<or> is_digit c then Inr [TUnmodelled]
      else Inl SyntaxError)"
  by pat_completeness auto
termination
  by (relation "measure length") (auto dest: scan_string_length)

text \<open>
  The grammar over the tokens, as a machine with a stack of the objects that are open:
  a frame holds the members an object has so far and the key whose value is being read.
  A complete value goes to the innermost open object, or is the result. A repeated key
  gives a second member; a property read takes the last one, as \<^verbatim>\<open>JSON.parse\<close> keeps
  the last value.
\<close>

type_synonym frame = "(jsstring \<times> json) list \<times> jsstring"

datatype pstate =
    Want_value "frame list"
  | After_open "frame list"
  | Want_key "(jsstring \<times> json) list" "frame list"
  | Want_colon "(jsstring \<times> json) list" jsstring "frame list"
  | After_member "(jsstring \<times> json) list" "frame list"
  | Done json

fun deliver :: "json \<Rightarrow> frame list \<Rightarrow> pstate" where
  "deliver v [] = Done v"
| "deliver v ((ms, k) # fs) = After_member (ms @ [(k, v)]) fs"

fun step :: "pstate \<Rightarrow> token \<Rightarrow> error + pstate" where
  "step (Want_value fs) LBrace = Inr (After_open fs)"
| "step (Want_value fs) (TString s) = Inr (deliver (JStr s) fs)"
| "step (Want_value fs) TTrue = Inr (deliver (JBool True) fs)"
| "step (Want_value fs) TFalse = Inr (deliver (JBool False) fs)"
| "step (Want_value fs) TNull = Inr (deliver JNull fs)"
| "step (Want_value fs) TUnmodelled = Inl Unmodelled"
| "step (After_open fs) RBrace = Inr (deliver (JObj []) fs)"
| "step (After_open fs) (TString k) = Inr (Want_colon [] k fs)"
| "step (Want_key ms fs) (TString k) = Inr (Want_colon ms k fs)"
| "step (Want_colon ms k fs) Colon = Inr (Want_value ((ms, k) # fs))"
| "step (After_member ms fs) Comma = Inr (Want_key ms fs)"
| "step (After_member ms fs) RBrace = Inr (deliver (JObj ms) fs)"
| "step _ _ = Inl SyntaxError"

fun run :: "pstate \<Rightarrow> token list \<Rightarrow> error + pstate" where
  "run st [] = Inr st"
| "run st (t # ts) = (case step st t of Inl e \<Rightarrow> Inl e | Inr st' \<Rightarrow> run st' ts)"

definition JSON_parse :: "jsstring \<Rightarrow> error + json" where
  "JSON_parse text =
     (case lex text of
        Inl e \<Rightarrow> Inl e
      | Inr ts \<Rightarrow>
          (case run (Want_value []) ts of
             Inl e \<Rightarrow> Inl e
           | Inr (Done v) \<Rightarrow> Inr v
           | Inr _ \<Rightarrow> Inl SyntaxError))"

section \<open>The configuration and the form state of ConfigComponent\<close>

text \<open>
  The configuration object of \<open>useState\<close>: three sub-records of string fields and the
  \<open>enabled\<close> flag. Every value the component itself writes is a string taken from an
  input's \<open>detail.value\<close>, a captured region, or a boolean, so the fields are typed.
  Field names shared between sub-records carry the sub-record's name as a prefix.
\<close>

record cognito_settings =
  userPoolId :: jsstring
  userPoolClientId :: jsstring
  cognito_region :: jsstring
  identityPoolId :: jsstring

record bedrock_settings =
  bedrock_agentName :: jsstring
  agentId :: jsstring
  agentAliasId :: jsstring
  bedrock_region :: jsstring

record strands_settings =
  enabled :: bool
  lambdaArn :: jsstring
  strands_agentName :: jsstring
  strands_region :: jsstring

record configuration =
  cognito :: cognito_settings
  bedrock :: bedrock_settings
  strands :: strands_settings

text \<open>
  The initial state; the default agent name is the literal
  \<^verbatim>\<open>'Strands' + U+30A8 U+30FC U+30B8 U+30A7 U+30F3 U+30C8\<close> of the source.
\<close>

definition initial_config :: configuration where
  "initial_config =
     \<lparr>cognito = \<lparr>userPoolId = [], userPoolClientId = [], cognito_region = [],
                 identityPoolId = []\<rparr>,
      bedrock = \<lparr>bedrock_agentName = [], agentId = [], agentAliasId = [],
                 bedrock_region = []\<rparr>,
      strands = \<lparr>enabled = False, lambdaArn = [],
                 strands_agentName =
                   ascii ''Strands'' @ [0x30A8, 0x30FC, 0x30B8, 0x30A7, 0x30F3, 0x30C8],
                 strands_region = []\<rparr>\<rparr>"

text \<open>
  The \<open>errors\<close> object maps a field key to its message. Its properties keep their
  insertion order, and assigning an existing key replaces the value in place:
  an association list under \<open>AList.update\<close>.
\<close>

type_synonym error_map = "(string \<times> jsstring) list"

text \<open>The messages of \<open>validateForm\<close>, as UTF-16 code units.\<close>

definition hissu_desu :: jsstring where
  "hissu_desu = [0x306F, 0x5FC5, 0x9808, 0x3067, 0x3059]"

definition msg_userPoolId :: jsstring where
  "msg_userPoolId =
     [0x30E6, 0x30FC, 0x30B6, 0x30FC, 0x30D7, 0x30FC, 0x30EB] @ ascii ''ID'' @ hissu_desu"

definition msg_userPoolClientId :: jsstring where
  "msg_userPoolClientId =
     [0x30E6, 0x30FC, 0x30B6, 0x30FC, 0x30D7, 0x30FC, 0x30EB, 0x30AF, 0x30E9, 0x30A4,
      0x30A2, 0x30F3, 0x30C8] @ ascii ''ID'' @ hissu_desu"

definition msg_identityPoolId :: jsstring where
  "msg_identityPoolId =
     [0x30A2, 0x30A4, 0x30C7, 0x30F3, 0x30C6, 0x30A3, 0x30C6, 0x30A3, 0x30D7, 0x30FC,
      0x30EB] @ ascii ''ID'' @ hissu_desu"

definition riijon :: jsstring where
  "riijon = [0x30EA, 0x30FC, 0x30B8, 0x30E7, 0x30F3]"

definition msg_cognitoRegion :: jsstring where
  "msg_cognitoRegion = ascii ''Cognito'' @ riijon @ hissu_desu"

definition msg_agentId :: jsstring where
  "msg_agentId =
     [0x30A8, 0x30FC, 0x30B8, 0x30A7, 0x30F3, 0x30C8] @ ascii ''ID'' @ hissu_desu"

definition msg_agentAliasId :: jsstring where
  "msg_agentAliasId =
     [0x30A8, 0x30FC, 0x30B8, 0x30A7, 0x30F3, 0x30C8, 0x30A8, 0x30A4, 0x30EA, 0x30A2,
      0x30B9] @ ascii ''ID'' @ hissu_desu"

definition msg_bedrockRegion :: jsstring where
  "msg_bedrockRegion = ascii ''Bedrock'' @ riijon @ hissu_desu"

definition msg_lambdaArn :: jsstring where
  "msg_lambdaArn = ascii ''Lambda ARN'' @ hissu_desu"

definition msg_strandsRegion :: jsstring where
  "msg_strandsRegion = riijon @ hissu_desu"

text \<open>
  The calls the component makes on its collaborators, in the order it makes them:
  the submit event, the authentication SDK, the two callbacks of the owner, the console.
\<close>

record auth_cognito =
  auth_region :: jsstring
  auth_userPoolId :: jsstring
  auth_userPoolClientId :: jsstring
  auth_identityPoolId :: jsstring

datatype call =
    PreventDefault
  | Amplify_configure auth_cognito
  | SetEditingConfig bool
  | OnConfigSet
  | Console_log jsstring

text \<open>
  The state a handler or an effect runs on: the two \<open>useState\<close> cells, the browser's
  \<open>localStorage\<close> (a map from keys to strings) and the calls made so far.
\<close>

record state =
  config :: configuration
  errors :: error_map
  localStorage :: "string \<rightharpoonup> jsstring"
  trace :: "call list"

definition initial_state :: "(string \<rightharpoonup> jsstring) \<Rightarrow> state" where
  "initial_state store =
     \<lparr>config = initial_config, errors = [], localStorage = store, trace = []\<rparr>"

definition configureAmplify :: "configuration \<Rightarrow> state \<Rightarrow> state" where
  "configureAmplify c st =
     st\<lparr>trace := trace st @
        [Amplify_configure
           \<lparr>auth_region = cognito_region (cognito c), auth_userPoolId = userPoolId (cognito c),
            auth_userPoolClientId = userPoolClientId (cognito c),
            auth_identityPoolId = identityPoolId (cognito c)\<rparr>]\<rparr>"

subsection \<open>The configuration as a JSON value\<close>

text \<open>
  The object \<^verbatim>\<open>JSON.stringify\<close> sees: the properties in the order of the initial state,
  which every copy by spread keeps.
\<close>

definition config_json :: "configuration \<Rightarrow> json" where
  "config_json c =
     JObj
      [(ascii ''cognito'', JObj
         [(ascii ''userPoolId'', JStr (userPoolId (cognito c))),
          (ascii ''userPoolClientId'', JStr (userPoolClientId (cognito c))),
          (ascii ''region'', JStr (cognito_region (cognito c))),
          (ascii ''identityPoolId'', JStr (identityPoolId (cognito c)))]),
       (ascii ''bedrock'', JObj
         [(ascii ''agentName'', JStr (bedrock_agentName (bedrock c))),
          (ascii ''agentId'', JStr (agentId (bedrock c))),
          (ascii ''agentAliasId'', JStr (agentAliasId (bedrock c))),
          (ascii ''region'', JStr (bedrock_region (bedrock c)))]),
       (ascii ''strands'', JObj
         [(ascii ''enabled'', JBool (enabled (strands c))),
          (ascii ''lambdaArn'', JStr (lambdaArn (strands c))),
          (ascii ''agentName'', JStr (strands_agentName (strands c))),
          (ascii ''region'', JStr (strands_region (strands c)))])]"

text \<open>
  The parsed value, read as the component reads it. \<open>get_prop\<close> is a property read on the
  members of an object. The \<open>cognito\<close> and \<open>bedrock\<close> properties must be objects with
  their string fields; \<open>strands\<close> is \<open>None\<close> when the property is absent or falsy (the
  test \<^verbatim>\<open>!parsedConfig.strands\<close>), and must be an object with its fields otherwise.
  Properties the component never reads are ignored.
\<close>

definition get_prop :: "(jsstring \<times> json) list \<Rightarrow> string \<Rightarrow> json option" where
  "get_prop ms k = map_of (rev ms) (ascii k)"

definition string_prop :: "(jsstring \<times> json) list \<Rightarrow> string \<Rightarrow> jsstring option" where
  "string_prop ms k = (case get_prop ms k of Some (JStr s) \<Rightarrow> Some s | _ \<Rightarrow> None)"

definition bool_prop :: "(jsstring \<times> json) list \<Rightarrow> string \<Rightarrow> bool option" where
  "bool_prop ms k = (case get_prop ms k of Some (JBool b) \<Rightarrow> Some b | _ \<Rightarrow> None)"

fun falsy :: "json \<Rightarrow> bool" where
  "falsy JNull = True"
| "falsy (JBool b) = (\<not> b)"
| "falsy (JStr s) = (s = [])"
| "falsy (JObj ms) = False"

fun cognito_of_json :: "json \<Rightarrow> cognito_settings option" where
  "cognito_of_json (JObj ms) =
     (case (string_prop ms ''userPoolId'', string_prop ms ''userPoolClientId'',
            string_prop ms ''region'', string_prop ms ''identityPoolId'') of
        (Some a, Some b, Some c, Some d) \<Rightarrow>
          Some \<lparr>userPoolId = a, userPoolClientId = b, cognito_region = c, identityPoolId = d\<rparr>
      | _ \<Rightarrow> None)"
| "cognito_of_json _ = None"

fun bedrock_of_json :: "json \<Rightarrow> bedrock_settings option" where
  "bedrock_of_json (JObj ms) =
     (case (string_prop ms ''agentName'', string_prop ms ''agentId'',
            string_prop ms ''agentAliasId'', string_prop ms ''region'') of
        (Some a, Some b, Some c, Some d) \<Rightarrow>
          Some \<lparr>bedrock_agentName = a, agentId = b, agentAliasId = c, bedrock_region = d\<rparr>
      | _ \<Rightarrow> None)"
| "bedrock_of_json _ = None"

fun strands_of_json :: "json \<Rightarrow> strands_settings option" where
  "strands_of_json (JObj ms) =
     (case (bool_prop ms ''enabled'', string_prop ms ''lambdaArn'',
            string_prop ms ''agentName'', string_prop ms ''region'') of
        (Some a, Some b, Some c, Some d) \<Rightarrow>
          Some \<lparr>enabled = a, lambdaArn = b, strands_agentName = c, strands_region = d\<rparr>
      | _ \<Rightarrow> None)"
| "strands_of_json _ = None"

record parsed_config =
  parsed_cognito :: cognito_settings
  parsed_bedrock :: bedrock_settings
  parsed_strands :: "strands_settings option"

fun parsed_of_json :: "json \<Rightarrow> parsed_config option" where
  "parsed_of_json (JObj ms) =
     (case (Option.bind (get_prop ms ''cognito'') cognito_of_json,
            Option.bind (get_prop ms ''bedrock'') bedrock_of_json,
            (case get_prop ms ''strands'' of
               None \<Rightarrow> Some None
             | Some v \<Rightarrow> if falsy v then Some None else map_option Some (strands_of_json v))) of
        (Some cg, Some bd, Some sd) \<Rightarrow>
          Some \<lparr>parsed_cognito = cg, parsed_bedrock = bd, parsed_strands = sd\<rparr>
      | _ \<Rightarrow> None)"
| "parsed_of_json _ = None"

subsection \<open>validateForm\<close>

text \<open>\<^verbatim>\<open>if (!value.trim()) newErrors.key = message\<close>.\<close>

definition required :: "jsstring \<Rightarrow> string \<Rightarrow> jsstring \<Rightarrow> error_map \<Rightarrow> error_map" where
  "required v k msg newErrors =
     (if \<not> truthy (trim v) then AList.update k msg newErrors else newErrors)"

definition newErrors_of :: "configuration \<Rightarrow> error_map" where
  "newErrors_of c =
     (let e0 = [];
          e1 = required (userPoolId (cognito c)) ''userPoolId'' msg_userPoolId e0;
          e2 = required (userPoolClientId (cognito c)) ''userPoolClientId''
                 msg_userPoolClientId e1;
          e3 = required (identityPoolId (cognito c)) ''identityPoolId'' msg_identityPoolId e2;
          e4 = required (cognito_region (cognito c)) ''cognitoRegion'' msg_cognitoRegion e3;
          e5 = (if \<not> enabled (strands c)
                then required (bedrock_region (bedrock c)) ''bedrockRegion'' msg_bedrockRegion
                       (required (agentAliasId (bedrock c)) ''agentAliasId'' msg_agentAliasId
                          (required (agentId (bedrock c)) ''agentId'' msg_agentId e4))
                else e4);
          e6 = (if enabled (strands c)
                then required (strands_region (strands c)) ''strandsRegion'' msg_strandsRegion
                       (required (lambdaArn (strands c)) ''lambdaArn'' msg_lambdaArn e5)
                else e5)
      in e6)"

text \<open>
  \<open>validateForm\<close> stores the fresh object with \<open>setErrors\<close> and returns whether it
  has no keys.
\<close>

definition validateForm :: "state \<Rightarrow> bool \<times> state" where
  "validateForm st =
     (let newErrors = newErrors_of (config st)
      in (length (map fst newErrors) = 0, st\<lparr>errors := newErrors\<rparr>))"

subsection \<open>Editing\<close>

text \<open>
  \<open>handleInputChange(section, field, value)\<close> copies the configuration with one field
  of one sub-record replaced. The source calls it with eleven literal pairs of section
  and field, one per text input; \<open>field\<close> names them.
\<close>

datatype field =
    Cognito_userPoolId | Cognito_userPoolClientId | Cognito_identityPoolId | Cognito_region
  | Bedrock_agentName | Bedrock_agentId | Bedrock_agentAliasId | Bedrock_region
  | Strands_agentName | Strands_lambdaArn | Strands_region

fun handleInputChange :: "field \<Rightarrow> jsstring \<Rightarrow> configuration \<Rightarrow> configuration" where
  "handleInputChange Cognito_userPoolId v c = c\<lparr>cognito := (cognito c)\<lparr>userPoolId := v\<rparr>\<rparr>"
| "handleInputChange Cognito_userPoolClientId v c =
     c\<lparr>cognito := (cognito c)\<lparr>userPoolClientId := v\<rparr>\<rparr>"
| "handleInputChange Cognito_identityPoolId v c =
     c\<lparr>cognito := (cognito c)\<lparr>identityPoolId := v\<rparr>\<rparr>"
| "handleInputChange Cognito_region v c = c\<lparr>cognito := (cognito c)\<lparr>cognito_region := v\<rparr>\<rparr>"
| "handleInputChange Bedrock_agentName v c =
     c\<lparr>bedrock := (bedrock c)\<lparr>bedrock_agentName := v\<rparr>\<rparr>"
| "handleInputChange Bedrock_agentId v c = c\<lparr>bedrock := (bedrock c)\<lparr>agentId := v\<rparr>\<rparr>"
| "handleInputChange Bedrock_agentAliasId v c =
     c\<lparr>bedrock := (bedrock c)\<lparr>agentAliasId := v\<rparr>\<rparr>"
| "handleInputChange Bedrock_region v c = c\<lparr>bedrock := (bedrock c)\<lparr>bedrock_region := v\<rparr>\<rparr>"
| "handleInputChange Strands_agentName v c =
     c\<lparr>strands := (strands c)\<lparr>strands_agentName := v\<rparr>\<rparr>"
| "handleInputChange Strands_lambdaArn v c = c\<lparr>strands := (strands c)\<lparr>lambdaArn := v\<rparr>\<rparr>"
| "handleInputChange Strands_region v c = c\<lparr>strands := (strands c)\<lparr>strands_region := v\<rparr>\<rparr>"

text \<open>The key each input's \<open>onChange\<close> clears in \<open>errors\<close>.\<close>

fun error_key :: "field \<Rightarrow> string" where
  "error_key Cognito_userPoolId = ''userPoolId''"
| "error_key Cognito_userPoolClientId = ''userPoolClientId''"
| "error_key Cognito_identityPoolId = ''identityPoolId''"
| "error_key Cognito_region = ''cognitoRegion''"
| "error_key Bedrock_agentName = ''agentName''"
| "error_key Bedrock_agentId = ''agentId''"
| "error_key Bedrock_agentAliasId = ''agentAliasId''"
| "error_key Bedrock_region = ''bedrockRegion''"
| "error_key Strands_agentName = ''strandsAgentName''"
| "error_key Strands_lambdaArn = ''lambdaArn''"
| "error_key Strands_region = ''strandsRegion''"

text \<open>
  An input's \<open>onChange\<close>:
  \<^verbatim>\<open>handleInputChange(section, field, detail.value); setErrors({...errors, key: ''})\<close>.
\<close>

definition input_onChange :: "field \<Rightarrow> jsstring \<Rightarrow> state \<Rightarrow> state" where
  "input_onChange f v st =
     st\<lparr>config := handleInputChange f v (config st),
        errors := AList.update (error_key f) [] (errors st)\<rparr>"

text \<open>
  The agent type \<open>Select\<close>: \<open>enabled\<close> becomes
  \<^verbatim>\<open>detail.selectedOption.value === 'strands'\<close>.
\<close>

definition select_onChange :: "jsstring \<Rightarrow> state \<Rightarrow> state" where
  "select_onChange selected st =
     st\<lparr>config := (config st)\<lparr>strands :=
        (strands (config st))\<lparr>enabled := (selected = ascii ''strands'')\<rparr>\<rparr>\<rparr>"

text \<open>The cancel button: \<^verbatim>\<open>onClick={() => setEditingConfig(false)}\<close>.\<close>

definition cancel_onClick :: "state \<Rightarrow> state" where
  "cancel_onClick st = st\<lparr>trace := trace st @ [SetEditingConfig False]\<rparr>"

subsection \<open>The derived region\<close>

text \<open>
  The effect on \<open>[config.strands.lambdaArn, config.strands.enabled]\<close>, and the
  \<open>disabled\<close> attribute of the region input of the Strands section.
\<close>

definition region_effect :: "state \<Rightarrow> state" where
  "region_effect st =
     (if enabled (strands (config st)) \<and> truthy (lambdaArn (strands (config st)))
      then (let region = extractRegionFromLambdaArn (lambdaArn (strands (config st)))
            in if truthy region
               then st\<lparr>config := handleInputChange Strands_region region (config st)\<rparr>
               else st)
      else st)"

definition region_input_disabled :: "state \<Rightarrow> bool" where
  "region_input_disabled st =
     truthy (extractRegionFromLambdaArn (lambdaArn (strands (config st))))"

text \<open>
  The edits of the form: a text input changes, or the agent type is selected. After the
  handler the component renders again, and the effect of the derived region runs when
  one of its dependencies \<open>config.strands.lambdaArn\<close>, \<open>config.strands.enabled\<close> has
  changed.
\<close>

datatype edit = Input field jsstring | Select jsstring

definition after_render :: "configuration \<Rightarrow> state \<Rightarrow> state" where
  "after_render before st =
     (if lambdaArn (strands (config st)) \<noteq> lambdaArn (strands before) \<or>
         enabled (strands (config st)) \<noteq> enabled (strands before)
      then region_effect st else st)"

fun apply_edit :: "edit \<Rightarrow> state \<Rightarrow> state" where
  "apply_edit (Input f v) st = after_render (config st) (input_onChange f v st)"
| "apply_edit (Select selected) st = after_render (config st) (select_onChange selected st)"

subsection \<open>handleSubmit\<close>

definition handleSubmit :: "state \<Rightarrow> state" where
  "handleSubmit st =
     (let st1 = st\<lparr>trace := trace st @ [PreventDefault]\<rparr>;
          (valid, st2) = validateForm st1
      in if valid
         then (let st3 = st2\<lparr>localStorage := (localStorage st2)
                            (''appConfig'' \<mapsto> JSON_stringify (config_json (config st)))\<rparr>;
                   st4 = configureAmplify (config st) st3;
                   st5 = st4\<lparr>trace := trace st4 @ [SetEditingConfig False]\<rparr>
               in st5\<lparr>trace := trace st5 @ [OnConfigSet]\<rparr>)
         else st2)"

subsection \<open>The effect that loads the stored configuration\<close>

text \<open>
  The effect on \<open>[isEditingConfig, onConfigSet, configureAmplify]\<close>: it runs after the
  first render and when \<open>isEditingConfig\<close> changes. \<open>getItem\<close> gives null for a missing
  key, and the empty string is falsy too. The object assigned to a missing \<open>strands\<close>
  is the literal of the effect.
\<close>

definition strands_backfill :: strands_settings where
  "strands_backfill =
     \<lparr>enabled = False, lambdaArn = [],
      strands_agentName = ascii ''Strands'' @ [0x30A8, 0x30FC, 0x30B8, 0x30A7, 0x30F3, 0x30C8],
      strands_region = []\<rparr>"

definition load_effect :: "bool \<Rightarrow> state \<Rightarrow> error + state" where
  "load_effect isEditingConfig st =
     (case localStorage st ''appConfig'' of
        None \<Rightarrow> Inr st
      | Some storedConfig \<Rightarrow>
          if \<not> truthy storedConfig then Inr st
          else (case JSON_parse storedConfig of
                  Inl e \<Rightarrow> Inl e
                | Inr j \<Rightarrow>
                    (case parsed_of_json j of
                       None \<Rightarrow> Inl Unmodelled
                     | Some parsed \<Rightarrow>
                         (let parsedConfig =
                                \<lparr>cognito = parsed_cognito parsed,
                                 bedrock = parsed_bedrock parsed,
                                 strands = (case parsed_strands parsed of
                                              None \<Rightarrow> strands_backfill
                                            | Some sd \<Rightarrow> sd)\<rparr>
                          in if \<not> isEditingConfig
                             then Inr (configureAmplify parsedConfig st)
                             else Inr (st\<lparr>config := parsedConfig,
                                          trace := trace st @
                                            [Console_log (ascii ''loading configuration'')]\<rparr>)))))"

section \<open>PreviewIframe\<close>

text \<open>
  The component renders one \<open>iframe\<close> with \<^verbatim>\<open>sandbox="allow-scripts"\<close> and keeps a ref to
  it. The effect on \<open>[html]\<close> assigns \<open>srcdoc\<close> when the ref is attached. The browser
  loads the value of \<open>srcdoc\<close> as the whole document of the frame, so the content of the
  surface is that attribute.
\<close>

record iframe =
  sandbox :: jsstring
  srcdoc :: "jsstring option"

record preview =
  iframeRef :: "iframe option"

definition rendered_iframe :: iframe where
  "rendered_iframe = \<lparr>sandbox = ascii ''allow-scripts'', srcdoc = None\<rparr>"

definition PreviewIframe_effect :: "jsstring \<Rightarrow> preview \<Rightarrow> preview" where
  "PreviewIframe_effect html p =
     (case iframeRef p of
        Some fr \<Rightarrow> p\<lparr>iframeRef := Some (fr\<lparr>srcdoc := Some html\<rparr>)\<rparr>
      | None \<Rightarrow> p)"

definition surface_content :: "preview \<Rightarrow> jsstring option" where
  "surface_content p = (case iframeRef p of Some fr \<Rightarrow> srcdoc fr | None \<Rightarrow> None)"

section \<open>The words of the specification, and examples\<close>

text \<open>
  The words of the specification: a value is an error when it is empty or consists of
  white space only, the white space being what \<open>trim\<close> removes.
\<close>

definition blank :: "jsstring \<Rightarrow> bool" where
  "blank s = list_all trims s"

text \<open>The mapping \<open>validateForm\<close> leaves in \<open>errors\<close>.\<close>

definition error_entries :: "state \<Rightarrow> string \<rightharpoonup> jsstring" where
  "error_entries st = map_of (errors (snd (validateForm st)))"

text \<open>The calls a handler or an effect made: the trace after it, without the trace before.\<close>

definition new_calls :: "state \<Rightarrow> state \<Rightarrow> call list" where
  "new_calls st st' = drop (length (trace st)) (trace st')"

text \<open>
  The identifier pattern in words: \<open>v\<close> is \<^verbatim>\<open>arn:aws:lambda:REGION:ACCOUNT:function:NAME\<close>
  with the region token \<open>g\<close> of lowercase letters, digits and hyphens, an account of
  digits and a name without line terminators, none of them empty.
\<close>

definition arn_prefix :: jsstring where
  "arn_prefix = ascii ''arn:aws:lambda:''"

definition lambda_arn :: "jsstring \<Rightarrow> jsstring \<Rightarrow> bool" where
  "lambda_arn v g =
     (\<exists>acct name.
        v = arn_prefix @ g @ 0x3A # acct @ 0x3A # ascii ''function:'' @ name \<and>
        g \<noteq> [] \<and> list_all is_region_char g \<and>
        acct \<noteq> [] \<and> list_all is_digit acct \<and>
        name \<noteq> [] \<and> list_all (\<lambda>c. \<not> is_line_terminator c) name)"

text \<open>
  The words of the claim: the colon-separated segments of a string, as
  \<^verbatim>\<open>s.split(':')\<close> gives them.
\<close>

fun split_colon :: "jsstring \<Rightarrow> jsstring list" where
  "split_colon [] = [[]]"
| "split_colon (c # s) =
     (if c = 0x3A then [] # split_colon s
      else (case split_colon s of seg # segs \<Rightarrow> (c # seg) # segs | [] \<Rightarrow> [[c]]))"

text \<open>The tokens of the text of a value: what the scan of \<open>JSON_stringify\<close> gives.\<close>

definition cons_tokens :: "token list \<Rightarrow> error + token list \<Rightarrow> error + token list" where
  "cons_tokens ts r = (case r of Inl e \<Rightarrow> Inl e | Inr ts' \<Rightarrow> Inr (ts @ ts'))"

fun tokens :: "json \<Rightarrow> token list"
  and member_tokens :: "(jsstring \<times> json) list \<Rightarrow> token list" where
  "tokens JNull = [TNull]"
| "tokens (JBool b) = (if b then [TTrue] else [TFalse])"
| "tokens (JStr s) = [TString s]"
| "tokens (JObj ms) = LBrace # member_tokens ms @ [RBrace]"
| "member_tokens [] = []"
| "member_tokens [(k, v)] = TString k # Colon # tokens v"
| "member_tokens ((k, v) # m # ms) = TString k # Colon # tokens v @ Comma # member_tokens (m # ms)"

text \<open>
  Examples: the ARN of the specification, a complete configuration and a state holding
  it, a state with a blank user pool id, a state with the Strands agent enabled, a
  sequence of edits, a state whose storage holds the complete configuration, and one
  whose storage holds it without the \<open>strands\<close> property.
\<close>

definition sample_arn :: jsstring where
  "sample_arn = ascii ''arn:aws:lambda:us-west-2:123456789012:function:foo''"

definition complete_config :: configuration where
  "complete_config =
     \<lparr>cognito = \<lparr>userPoolId = ascii ''p1'', userPoolClientId = ascii ''c1'',
                 cognito_region = ascii ''r1'', identityPoolId = ascii ''i1''\<rparr>,
      bedrock = \<lparr>bedrock_agentName = [], agentId = ascii ''a1'', agentAliasId = ascii ''b1'',
                 bedrock_region = ascii ''r2''\<rparr>,
      strands = strands_backfill\<rparr>"

definition complete_state :: state where
  "complete_state = \<lparr>config = complete_config, errors = [], localStorage = Map.empty, trace = []\<rparr>"

definition blank_pool_state :: state where
  "blank_pool_state =
     complete_state\<lparr>config := handleInputChange Cognito_userPoolId [0x20, 0x3000] complete_config\<rparr>"

definition strands_state :: state where
  "strands_state =
     complete_state\<lparr>config := complete_config\<lparr>strands :=
       \<lparr>enabled = True, lambdaArn = [], strands_agentName = [], strands_region = ascii ''eu''\<rparr>\<rparr>\<rparr>"

definition stored_edits :: "edit list" where
  "stored_edits =
     [Input Cognito_region (ascii ''x''), Select (ascii ''strands''),
      Input Strands_agentName (ascii ''y'')]"

definition stored_state :: state where
  "stored_state =
     initial_state [''appConfig'' \<mapsto> JSON_stringify (config_json complete_config)]"

definition legacy_json :: json where
  "legacy_json =
     JObj
      [(ascii ''cognito'', JObj
         [(ascii ''userPoolId'', JStr (ascii ''p1'')),
          (ascii ''userPoolClientId'', JStr (ascii ''c1'')),
          (ascii ''region'', JStr (ascii ''r1'')),
          (ascii ''identityPoolId'', JStr (ascii ''i1''))]),
       (ascii ''bedrock'', JObj
         [(ascii ''agentName'', JStr []),
          (ascii ''agentId'', JStr (ascii ''a1'')),
          (ascii ''agentAliasId'', JStr (ascii ''b1'')),
          (ascii ''region'', JStr (ascii ''r2''))])]"

definition legacy_state :: state where
  "legacy_state = initial_state [''appConfig'' \<mapsto> JSON_stringify legacy_json]"

section \<open>Validation\<close>

lemma dropWhile_all_iff: "list_all P (dropWhile P xs) = list_all P xs"
  by (induction xs) simp_all

lemma trim_empty_iff: "(trim s = []) = blank s"
proof -
  have "(trim s = []) = list_all trims (dropWhile trims s)"
    by (simp add: trim_def dropWhile_eq_Nil_conv list_all_iff)
  then show ?thesis by (simp add: blank_def dropWhile_all_iff)
qed

lemma map_of_required:
  "map_of (required v k msg e) k' = (if k' = k \<and> blank v then Some msg else map_of e k')"
  by (simp add: required_def truthy_def trim_empty_iff update_conv')

lemma map_of_newErrors:
  "map_of (newErrors_of c) k =
     (if k = ''userPoolId'' \<and> blank (userPoolId (cognito c)) then Some msg_userPoolId
      else if k = ''userPoolClientId'' \<and> blank (userPoolClientId (cognito c))
        then Some msg_userPoolClientId
      else if k = ''identityPoolId'' \<and> blank (identityPoolId (cognito c))
        then Some msg_identityPoolId
      else if k = ''cognitoRegion'' \<and> blank (cognito_region (cognito c))
        then Some msg_cognitoRegion
      else if k = ''agentId'' \<and> \<not> enabled (strands c) \<and> blank (agentId (bedrock c))
        then Some msg_agentId
      else if k = ''agentAliasId'' \<and> \<not> enabled (strands c) \<and> blank (agentAliasId (bedrock c))
        then Some msg_agentAliasId
      else if k = ''bedrockRegion'' \<and> \<not> enabled (strands c) \<and> blank (bedrock_region (bedrock c))
        then Some msg_bedrockRegion
      else if k = ''lambdaArn'' \<and> enabled (strands c) \<and> blank (lambdaArn (strands c))
        then Some msg_lambdaArn
      else if k = ''strandsRegion'' \<and> enabled (strands c) \<and> blank (strands_region (strands c))
        then Some msg_strandsRegion
      else None)"
  by (simp add: newErrors_of_def Let_def map_of_required)

lemma newErrors_other_key:
  assumes "k \<noteq> ''userPoolId''" "k \<noteq> ''userPoolClientId''" "k \<noteq> ''identityPoolId''"
    "k \<noteq> ''cognitoRegion''" "k \<noteq> ''agentId''" "k \<noteq> ''agentAliasId''"
    "k \<noteq> ''bedrockRegion''" "k \<noteq> ''lambdaArn''" "k \<noteq> ''strandsRegion''"
  shows "map_of (newErrors_of c) k = None"
  unfolding map_of_newErrors using assms by (simp only: simp_thms if_False)

lemma error_entries_eq: "error_entries st = map_of (newErrors_of (config st))"
  by (simp add: error_entries_def validateForm_def Let_def)

lemma identity_entries:
  "(''userPoolId'' \<in> dom (error_entries st)) = blank (userPoolId (cognito (config st)))"
  "(''userPoolClientId'' \<in> dom (error_entries st)) =
     blank (userPoolClientId (cognito (config st)))"
  "(''cognitoRegion'' \<in> dom (error_entries st)) = blank (cognito_region (cognito (config st)))"
  "(''identityPoolId'' \<in> dom (error_entries st)) =
     blank (identityPoolId (cognito (config st)))"
  by (simp_all add: error_entries_eq dom_def map_of_newErrors)

lemma bedrock_entries:
  "(''agentId'' \<in> dom (error_entries st)) =
     (\<not> enabled (strands (config st)) \<and> blank (agentId (bedrock (config st))))"
  "(''agentAliasId'' \<in> dom (error_entries st)) =
     (\<not> enabled (strands (config st)) \<and> blank (agentAliasId (bedrock (config st))))"
  "(''bedrockRegion'' \<in> dom (error_entries st)) =
     (\<not> enabled (strands (config st)) \<and> blank (bedrock_region (bedrock (config st))))"
  by (simp_all add: error_entries_eq dom_def map_of_newErrors)

lemma strands_entries:
  "(''lambdaArn'' \<in> dom (error_entries st)) =
     (enabled (strands (config st)) \<and> blank (lambdaArn (strands (config st))))"
  "(''strandsRegion'' \<in> dom (error_entries st)) =
     (enabled (strands (config st)) \<and> blank (strands_region (strands (config st))))"
  by (simp_all add: error_entries_eq dom_def map_of_newErrors)

lemma no_other_entries:
  "dom (error_entries st) \<subseteq>
     {''userPoolId'', ''userPoolClientId'', ''cognitoRegion'', ''identityPoolId'',
      ''agentId'', ''agentAliasId'', ''bedrockRegion'', ''lambdaArn'', ''strandsRegion''}"
proof
  fix k
  assume k: "k \<in> dom (error_entries st)"
  show "k \<in> {''userPoolId'', ''userPoolClientId'', ''cognitoRegion'', ''identityPoolId'',
      ''agentId'', ''agentAliasId'', ''bedrockRegion'', ''lambdaArn'', ''strandsRegion''}"
  proof (rule ccontr)
    assume "k \<notin> {''userPoolId'', ''userPoolClientId'', ''cognitoRegion'', ''identityPoolId'',
      ''agentId'', ''agentAliasId'', ''bedrockRegion'', ''lambdaArn'', ''strandsRegion''}"
    then have "map_of (newErrors_of (config st)) k = None"
      by (intro newErrors_other_key) simp_all
    then have "k \<notin> dom (error_entries st)"
      by (simp only: error_entries_eq domIff not_not)
    with k show False by contradiction
  qed
qed

lemma validateForm_result:
  "validateForm st = (newErrors_of (config st) = [], st\<lparr>errors := newErrors_of (config st)\<rparr>)"
  by (simp add: validateForm_def Let_def)

lemma validateForm_true_iff: "fst (validateForm st) = (error_entries st = Map.empty)"
  by (simp add: validateForm_result error_entries_eq map_of_eq_empty_iff)

text \<open>
  C1. \<open>validateForm\<close> replaces \<open>errors\<close> by a mapping computed from the configuration
  alone (the previous \<open>errors\<close> play no part, nothing else of the state changes) and
  returns true exactly when that mapping is empty. The four Cognito fields have an
  entry exactly when blank; the three required Bedrock fields exactly when Strands is
  not enabled and the field is blank; \<open>lambdaArn\<close> and the Strands region exactly when
  Strands is enabled and the field is blank; there is no entry under any other key.
\<close>

theorem validateForm_errors_exactly:
  "snd (validateForm st) = st\<lparr>errors := newErrors_of (config st)\<rparr> \<and>
   fst (validateForm st) = (error_entries st = Map.empty) \<and>
   (''userPoolId'' \<in> dom (error_entries st)) = blank (userPoolId (cognito (config st))) \<and>
   (''userPoolClientId'' \<in> dom (error_entries st)) =
      blank (userPoolClientId (cognito (config st))) \<and>
   (''cognitoRegion'' \<in> dom (error_entries st)) =
      blank (cognito_region (cognito (config st))) \<and>
   (''identityPoolId'' \<in> dom (error_entries st)) =
      blank (identityPoolId (cognito (config st))) \<and>
   (''agentId'' \<in> dom (error_entries st)) =
      (\<not> enabled (strands (config st)) \<and> blank (agentId (bedrock (config st)))) \<and>
   (''agentAliasId'' \<in> dom (error_entries st)) =
      (\<not> enabled (strands (config st)) \<and> blank (agentAliasId (bedrock (config st)))) \<and>
   (''bedrockRegion'' \<in> dom (error_entries st)) =
      (\<not> enabled (strands (config st)) \<and> blank (bedrock_region (bedrock (config st)))) \<and>
   (''lambdaArn'' \<in> dom (error_entries st)) =
      (enabled (strands (config st)) \<and> blank (lambdaArn (strands (config st)))) \<and>
   (''strandsRegion'' \<in> dom (error_entries st)) =
      (enabled (strands (config st)) \<and> blank (strands_region (strands (config st)))) \<and>
   dom (error_entries st) \<subseteq>
     {''userPoolId'', ''userPoolClientId'', ''cognitoRegion'', ''identityPoolId'',
      ''agentId'', ''agentAliasId'', ''bedrockRegion'', ''lambdaArn'', ''strandsRegion''}"
  by (intro conjI identity_entries bedrock_entries strands_entries no_other_entries
      validateForm_true_iff) (simp add: validateForm_result)

lemmas char_class_defs =
  trims_def is_white_space_def is_line_terminator_def is_digit_def is_region_char_def

theorem validateForm_errors_exactly_witness:
  "\<not> fst (validateForm blank_pool_state) \<and>
   ''userPoolId'' \<in> dom (error_entries blank_pool_state) \<and>
   dom (error_entries blank_pool_state) \<subseteq> {''userPoolId''} \<and>
   fst (validateForm complete_state)"
proof -
  have b: "blank [0x20, 0x3000]" "\<not> blank (ascii ''c1'')" "\<not> blank (ascii ''r1'')"
    "\<not> blank (ascii ''i1'')" "\<not> blank (ascii ''a1'')" "\<not> blank (ascii ''b1'')"
    "\<not> blank (ascii ''r2'')" "\<not> blank (ascii ''p1'')"
    by (simp_all add: blank_def ascii_def char_class_defs)
  have e: "error_entries complete_state = Map.empty"
    using b by (simp add: error_entries_eq fun_eq_iff map_of_newErrors complete_state_def
        complete_config_def strands_backfill_def)
  have d: "dom (error_entries blank_pool_state) \<subseteq> {''userPoolId''}"
    using b by (auto simp: error_entries_eq map_of_newErrors blank_pool_state_def
        complete_state_def complete_config_def strands_backfill_def split: if_splits)
  have p: "''userPoolId'' \<in> dom (error_entries blank_pool_state)"
    using b validateForm_errors_exactly [of blank_pool_state]
    by (simp add: blank_pool_state_def complete_state_def complete_config_def)
  from p have "error_entries blank_pool_state \<noteq> Map.empty" by auto
  with validateForm_errors_exactly [of blank_pool_state] validateForm_errors_exactly [of complete_state]
    e d p show ?thesis by simp
qed

section \<open>Editing and the error mapping\<close>

lemma input_onChange_errors:
  "map_of (errors (input_onChange f v st)) = (map_of (errors st))(error_key f \<mapsto> [])"
  by (simp add: input_onChange_def update_conv')

lemma region_effect_frame:
  "errors (region_effect st) = errors st" "localStorage (region_effect st) = localStorage st"
  "trace (region_effect st) = trace st"
  by (simp_all add: region_effect_def Let_def)

lemma after_render_frame:
  "errors (after_render c st) = errors st" "localStorage (after_render c st) = localStorage st"
  "trace (after_render c st) = trace st"
  by (simp_all add: after_render_def region_effect_frame)

lemma inj_error_key: "inj error_key"
proof (rule injI)
  fix f g :: field
  assume "error_key f = error_key g"
  then show "f = g" by (cases f; cases g) simp_all
qed

text \<open>
  C8. An edit of a text input touches one entry of the error mapping, the entry of that
  input (distinct inputs have distinct keys): it becomes the empty message, and every
  other key keeps what it had. The new \<open>errors\<close> are computed from the old \<open>errors\<close>
  and the key alone, not from the configuration; selecting the agent type changes no
  entry. Only a submit stores the mapping recomputed from the configuration.
\<close>

theorem edit_clears_one_entry:
  "map_of (errors (apply_edit (Input f v) st)) (error_key f) = Some [] \<and>
   (\<forall>k. k \<noteq> error_key f \<longrightarrow>
      map_of (errors (apply_edit (Input f v) st)) k = map_of (errors st) k) \<and>
   errors (apply_edit (Input f v) st) = AList.update (error_key f) [] (errors st) \<and>
   errors (apply_edit (Select selected) st) = errors st \<and>
   errors (handleSubmit st) = newErrors_of (config st) \<and>
   inj error_key"
  by (simp add: after_render_frame input_onChange_errors inj_error_key handleSubmit_def
      validateForm_result Let_def configureAmplify_def)
    (simp add: input_onChange_def select_onChange_def)

theorem edit_clears_one_entry_witness:
  "map_of (errors (apply_edit (Input Bedrock_agentId (ascii ''x'')) (snd (validateForm blank_pool_state))))
     ''agentId'' = Some [] \<and>
   map_of (errors (apply_edit (Input Bedrock_agentId (ascii ''x'')) (snd (validateForm blank_pool_state))))
     ''userPoolId'' = Some msg_userPoolId"
proof -
  have "blank [0x20, 0x3000]"
    by (simp add: blank_def char_class_defs)
  then have "map_of (errors (snd (validateForm blank_pool_state))) ''userPoolId'' = Some msg_userPoolId"
    by (simp add: validateForm_result map_of_newErrors blank_pool_state_def complete_state_def
        complete_config_def)
  with edit_clears_one_entry [of Bedrock_agentId "ascii ''x''" "snd (validateForm blank_pool_state)"]
  show ?thesis by (simp add: update_conv')
qed

section \<open>What the pattern accepts\<close>

text \<open>
  Each repetition of the pattern is followed by a character outside its class, or ends
  the pattern, so the backtracking matcher takes the longest run and never gives
  characters back.
\<close>

lemma rmatch_lit:
  "ps \<noteq> [] \<Longrightarrow> rmatch (map (\<lambda>c. Once (Chr c)) l @ ps) s =
     (if prefix l s then rmatch ps (drop (length l) s) else None)"
proof (induction l arbitrary: s)
  case Nil
  then show ?case by simp
next
  case (Cons c l)
  then show ?case by (cases s) auto
qed

lemma rmatch_group_then_chr:
  assumes "\<not> atom_matches a d"
  shows "rmatch (Group_plus a # Once (Chr d) # ps) s =
     (if takeWhile (atom_matches a) s \<noteq> [] \<and>
         prefix [d] (dropWhile (atom_matches a) s)
      then map_option ((@) (takeWhile (atom_matches a) s))
             (rmatch ps (tl (dropWhile (atom_matches a) s)))
      else None)"
proof (induction s)
  case Nil
  then show ?case by simp
next
  case (Cons c s)
  show ?case
  proof (cases "atom_matches a c")
    case False
    then show ?thesis by simp
  next
    case True
    show ?thesis
    proof (cases s)
      case Nil
      with True show ?thesis by simp
    next
      case (Cons c' s')
      show ?thesis
      proof (cases "atom_matches a c'")
        case True
        with assms have "c' \<noteq> d" by auto
        with True \<open>atom_matches a c\<close> Cons Cons.IH show ?thesis
          by (auto split: option.splits)
      next
        case False
        with \<open>atom_matches a c\<close> Cons show ?thesis
          by (auto split: option.splits)
      qed
    qed
  qed
qed

lemma rmatch_plus_then_chr:
  assumes "\<not> atom_matches a d"
  shows "rmatch (Plus a # Once (Chr d) # ps) s =
     (if takeWhile (atom_matches a) s \<noteq> [] \<and>
         prefix [d] (dropWhile (atom_matches a) s)
      then rmatch ps (tl (dropWhile (atom_matches a) s))
      else None)"
proof (induction s)
  case Nil
  then show ?case by simp
next
  case (Cons c s)
  show ?case
  proof (cases "atom_matches a c")
    case False
    then show ?thesis by simp
  next
    case True
    show ?thesis
    proof (cases s)
      case Nil
      with True show ?thesis by simp
    next
      case (Cons c' s')
      show ?thesis
      proof (cases "atom_matches a c'")
        case True
        with assms have "c' \<noteq> d" by auto
        with True \<open>atom_matches a c\<close> Cons Cons.IH show ?thesis
          by (auto split: option.splits)
      next
        case False
        with \<open>atom_matches a c\<close> Cons show ?thesis
          by (auto split: option.splits)
      qed
    qed
  qed
qed

lemma rmatch_plus_end:
  "rmatch [Plus a] s = (if s \<noteq> [] \<and> list_all (atom_matches a) s then Some [] else None)"
proof (induction s)
  case Nil
  then show ?case by simp
next
  case (Cons c s)
  then show ?case by (cases s) (auto split: option.splits)
qed

lemma arnPattern_pieces:
  "arnPattern =
     map (\<lambda>c. Once (Chr c)) arn_prefix @
     (Group_plus Region_class # Once (Chr 0x3A) #
      Plus Digit # Once (Chr 0x3A) #
      (map (\<lambda>c. Once (Chr c)) (ascii ''function:'') @ [Plus Dot]))"
  by (simp add: arnPattern_def lit_def ascii_def arn_prefix_def)

lemma colon_classes: "\<not> atom_matches Region_class 0x3A" "\<not> atom_matches Digit 0x3A"
  by (simp_all add: is_region_char_def is_digit_def)

lemma rmatch_arnPattern:
  "rmatch arnPattern s =
     (if prefix arn_prefix s \<and>
         takeWhile is_region_char (drop 15 s) \<noteq> [] \<and>
         prefix [0x3A] (dropWhile is_region_char (drop 15 s)) \<and>
         takeWhile is_digit (tl (dropWhile is_region_char (drop 15 s))) \<noteq> [] \<and>
         prefix [0x3A] (dropWhile is_digit (tl (dropWhile is_region_char (drop 15 s)))) \<and>
         prefix (ascii ''function:'')
           (tl (dropWhile is_digit (tl (dropWhile is_region_char (drop 15 s))))) \<and>
         drop 9 (tl (dropWhile is_digit (tl (dropWhile is_region_char (drop 15 s))))) \<noteq> [] \<and>
         list_all (\<lambda>c. \<not> is_line_terminator c)
           (drop 9 (tl (dropWhile is_digit (tl (dropWhile is_region_char (drop 15 s))))))
      then Some (takeWhile is_region_char (drop 15 s))
      else None)"
proof -
  have len: "length arn_prefix = 15" "length (ascii ''function:'') = 9"
    by (simp_all add: arn_prefix_def ascii_def)
  have am: "atom_matches Region_class = is_region_char" "atom_matches Digit = is_digit"
    "atom_matches Dot = (\<lambda>c. \<not> is_line_terminator c)"
    by (simp_all add: fun_eq_iff)
  have 1: "rmatch arnPattern s =
     (if prefix arn_prefix s then rmatch (Group_plus Region_class # Once (Chr 0x3A) #
      Plus Digit # Once (Chr 0x3A) #
      (map (\<lambda>c. Once (Chr c)) (ascii ''function:'') @ [Plus Dot])) (drop 15 s) else None)"
    unfolding arnPattern_pieces by (subst rmatch_lit) (simp_all only: len list.simps if_True simp_thms)
  have "rmatch (map (\<lambda>c. Once (Chr c)) (ascii ''function:'') @ [Plus Dot]) r =
     (if prefix (ascii ''function:'') r then rmatch [Plus Dot] (drop 9 r) else None)" for r
    by (subst rmatch_lit) (simp_all only: len list.simps simp_thms)
  then have 2: "rmatch (map (\<lambda>c. Once (Chr c)) (ascii ''function:'') @ [Plus Dot]) r =
     (if prefix (ascii ''function:'') r \<and> drop 9 r \<noteq> [] \<and>
         list_all (\<lambda>c. \<not> is_line_terminator c) (drop 9 r) then Some [] else None)" for r
    by (simp only: rmatch_plus_end am) auto
  show ?thesis
    unfolding 1 rmatch_group_then_chr [OF colon_classes(1)]
      rmatch_plus_then_chr [OF colon_classes(2)] 2 am
    by (auto simp only: option.map append_Nil2 option.simps split: if_split)
qed

lemma prefix_singleton_tl: "prefix [d] r \<Longrightarrow> r = d # tl r"
  by (cases r) auto

lemma prefix_drop: "prefix l s \<Longrightarrow> s = l @ drop (length l) s"
  by (auto simp: prefix_def)

lemma rmatch_arnPattern_shape:
  assumes "rmatch arnPattern s = Some g"
  shows "\<exists>acct name.
           s = arn_prefix @ g @ 0x3A # acct @ 0x3A # ascii ''function:'' @ name \<and>
           g \<noteq> [] \<and> list_all is_region_char g \<and>
           acct \<noteq> [] \<and> list_all is_digit acct \<and>
           name \<noteq> [] \<and> list_all (\<lambda>c. \<not> is_line_terminator c) name"
proof -
  define t where "t = drop 15 s"
  define r where "r = tl (dropWhile is_region_char t)"
  define q where "q = tl (dropWhile is_digit r)"
  from assms have
    p: "prefix arn_prefix s" and g: "g = takeWhile is_region_char t" and
    g0: "takeWhile is_region_char t \<noteq> []" and
    c1: "prefix [0x3A] (dropWhile is_region_char t)" and
    a0: "takeWhile is_digit r \<noteq> []" and
    c2: "prefix [0x3A] (dropWhile is_digit r)" and
    f: "prefix (ascii ''function:'') q" and
    n0: "drop 9 q \<noteq> []" and n: "list_all (\<lambda>c. \<not> is_line_terminator c) (drop 9 q)"
    unfolding rmatch_arnPattern t_def r_def q_def by (auto split: if_splits)
  have len: "length arn_prefix = 15" "length (ascii ''function:'') = 9"
    by (simp_all add: arn_prefix_def ascii_def)
  from prefix_drop [OF p] have s: "s = arn_prefix @ t"
    unfolding t_def len .
  have t: "t = g @ 0x3A # r"
    using prefix_singleton_tl [OF c1] takeWhile_dropWhile_id [of is_region_char t]
    unfolding g r_def by metis
  have r: "r = takeWhile is_digit r @ 0x3A # q"
    using prefix_singleton_tl [OF c2] takeWhile_dropWhile_id [of is_digit r]
    unfolding q_def by metis
  from prefix_drop [OF f] have q: "q = ascii ''function:'' @ drop 9 q"
    unfolding len .
  have "list_all is_region_char g" "list_all is_digit (takeWhile is_digit r)"
    unfolding g by (auto simp: list_all_iff dest: set_takeWhileD)
  moreover have "s = arn_prefix @ g @ 0x3A # takeWhile is_digit r @ 0x3A #
      ascii ''function:'' @ drop 9 q"
    using s t r q by simp
  ultimately show ?thesis
    using g0 a0 n0 n g by blast
qed

lemma rmatch_arnPattern_complete:
  assumes "g \<noteq> []" "list_all is_region_char g" "acct \<noteq> []" "list_all is_digit acct"
    "name \<noteq> []" "list_all (\<lambda>c. \<not> is_line_terminator c) name"
  shows "rmatch arnPattern (arn_prefix @ g @ 0x3A # acct @ 0x3A # ascii ''function:'' @ name)
           = Some g"
proof -
  have len: "length arn_prefix = 15" "length (ascii ''function:'') = 9"
    by (simp_all add: arn_prefix_def ascii_def)
  have c: "\<not> is_region_char 0x3A" "\<not> is_digit 0x3A"
    by (simp_all add: is_region_char_def is_digit_def)
  from assms(2) c(1) have tw: "takeWhile is_region_char (g @ 0x3A # x) = g"
    and dw: "dropWhile is_region_char (g @ 0x3A # x) = 0x3A # x" for x
    by (simp_all add: list_all_iff takeWhile_append2 dropWhile_append2)
  from assms(4) c(2) have tw2: "takeWhile is_digit (acct @ 0x3A # x) = acct"
    and dw2: "dropWhile is_digit (acct @ 0x3A # x) = 0x3A # x" for x
    by (simp_all add: list_all_iff takeWhile_append2 dropWhile_append2)
  show ?thesis
    unfolding rmatch_arnPattern using assms(1,3,5,6)
    by (simp add: len tw dw tw2 dw2)
qed

lemma rmatch_arnPattern_iff: "(rmatch arnPattern v = Some g) = lambda_arn v g"
proof
  assume "rmatch arnPattern v = Some g"
  from rmatch_arnPattern_shape [OF this] show "lambda_arn v g"
    unfolding lambda_arn_def .
next
  assume "lambda_arn v g"
  then obtain acct name where
    v: "v = arn_prefix @ g @ 0x3A # acct @ 0x3A # ascii ''function:'' @ name" and
    *: "g \<noteq> []" "list_all is_region_char g" "acct \<noteq> []" "list_all is_digit acct"
    "name \<noteq> []" "list_all (\<lambda>c. \<not> is_line_terminator c) name"
    unfolding lambda_arn_def by blast
  show "rmatch arnPattern v = Some g"
    unfolding v by (rule rmatch_arnPattern_complete [OF *])
qed

lemma split_colon_segment:
  "0x3A \<notin> set seg \<Longrightarrow> split_colon (seg @ 0x3A # rest) = seg # split_colon rest"
  by (induction seg) auto

lemma split_colon_not_Nil: "split_colon s \<noteq> []"
  by (induction s) (auto split: list.splits)

lemma split_colon_empty_iff: "(split_colon s = [[]]) = (s = [])"
  using split_colon_not_Nil [of "tl s"] by (cases s) (auto split: list.splits)

lemma class_no_colon:
  "list_all is_region_char g \<Longrightarrow> 0x3A \<notin> set g" "list_all is_digit a \<Longrightarrow> 0x3A \<notin> set a"
  by (auto simp: list_all_iff is_region_char_def is_digit_def)

lemma split_colon_arn:
  assumes "list_all is_region_char g" "list_all is_digit acct"
  shows "split_colon (arn_prefix @ g @ 0x3A # acct @ 0x3A # ascii ''function:'' @ name) =
     [ascii ''arn'', ascii ''aws'', ascii ''lambda'', g, acct, ascii ''function''] @
     split_colon name"
proof -
  have eq: "arn_prefix @ g @ 0x3A # acct @ 0x3A # ascii ''function:'' @ name =
     ascii ''arn'' @ 0x3A # ascii ''aws'' @ 0x3A # ascii ''lambda'' @ 0x3A # g @ 0x3A #
     acct @ 0x3A # ascii ''function'' @ 0x3A # name"
    by (simp add: arn_prefix_def ascii_def)
  have "0x3A \<notin> set (ascii ''arn'')" "0x3A \<notin> set (ascii ''aws'')"
    "0x3A \<notin> set (ascii ''lambda'')" "0x3A \<notin> set (ascii ''function'')"
    by (simp_all add: ascii_def)
  then have "split_colon (ascii ''arn'' @ 0x3A # ascii ''aws'' @ 0x3A # ascii ''lambda'' @
      0x3A # g @ 0x3A # acct @ 0x3A # ascii ''function'' @ 0x3A # name) =
     [ascii ''arn'', ascii ''aws'', ascii ''lambda'', g, acct, ascii ''function''] @
     split_colon name"
    using class_no_colon(1) [OF assms(1)] class_no_colon(2) [OF assms(2)]
    by (simp add: split_colon_segment)
  then show ?thesis by (simp only: eq)
qed

lemma extract_shape:
  assumes "extractRegionFromLambdaArn s \<noteq> []"
  shows "\<exists>g acct name.
      extractRegionFromLambdaArn s = g \<and>
      s = arn_prefix @ g @ 0x3A # acct @ 0x3A # ascii ''function:'' @ name \<and>
      g \<noteq> [] \<and> list_all is_region_char g \<and> acct \<noteq> [] \<and> list_all is_digit acct \<and>
      name \<noteq> [] \<and> list_all (\<lambda>c. \<not> is_line_terminator c) name"
proof (cases "rmatch arnPattern s")
  case None
  with assms show ?thesis by (simp add: extractRegionFromLambdaArn_def)
next
  case (Some g)
  from rmatch_arnPattern_shape [OF Some] obtain acct name where *:
    "s = arn_prefix @ g @ 0x3A # acct @ 0x3A # ascii ''function:'' @ name"
    "g \<noteq> []" "list_all is_region_char g" "acct \<noteq> []" "list_all is_digit acct"
    "name \<noteq> []" "list_all (\<lambda>c. \<not> is_line_terminator c) name"
    by blast
  from Some \<open>g \<noteq> []\<close> have "extractRegionFromLambdaArn s = g"
    by (simp add: extractRegionFromLambdaArn_def truthy_def)
  with * show ?thesis by (intro exI [of _ g] exI [of _ acct] exI [of _ name]) simp
qed

text \<open>
  C10, amended. \<open>extractRegionFromLambdaArn\<close> is a total function (the matcher is
  defined by terminating recursion). Its result is the empty string, or a token of
  lowercase letters, digits and hyphens that is the fourth colon-separated segment of
  the input (index 3 of \<^verbatim>\<open>split(':')\<close>; the claim says the third, which is \<open>lambda\<close>).
  The result is empty when the input does not begin with \<^verbatim>\<open>arn:aws:lambda:\<close>, when the
  account segment (index 4) holds a character that is not a digit, and when nothing
  follows the sixth colon, the one of \<^verbatim>\<open>function:\<close>.
\<close>

theorem extractRegion_segments:
  "(extractRegionFromLambdaArn s = [] \<or>
      list_all is_region_char (extractRegionFromLambdaArn s) \<and>
      3 < length (split_colon s) \<and>
      extractRegionFromLambdaArn s = split_colon s ! 3) \<and>
   (\<not> prefix (ascii ''arn:aws:lambda:'') s \<longrightarrow> extractRegionFromLambdaArn s = []) \<and>
   (4 < length (split_colon s) \<and> \<not> list_all is_digit (split_colon s ! 4) \<longrightarrow>
      extractRegionFromLambdaArn s = []) \<and>
   (drop 6 (split_colon s) = [[]] \<longrightarrow> extractRegionFromLambdaArn s = [])"
proof (cases "extractRegionFromLambdaArn s = []")
  case True
  then show ?thesis by simp
next
  case False
  from extract_shape [OF False] obtain g acct name where
    e: "extractRegionFromLambdaArn s = g" and
    s: "s = arn_prefix @ g @ 0x3A # acct @ 0x3A # ascii ''function:'' @ name" and
    g: "list_all is_region_char g" and
    a: "list_all is_digit acct" and n: "name \<noteq> []"
    by blast
  have segs: "split_colon s =
     [ascii ''arn'', ascii ''aws'', ascii ''lambda'', g, acct, ascii ''function''] @
     split_colon name"
    unfolding s by (rule split_colon_arn [OF g a])
  have p: "prefix (ascii ''arn:aws:lambda:'') s"
    unfolding s by (simp add: arn_prefix_def)
  from n have "split_colon name \<noteq> [[]]"
    by (simp add: split_colon_empty_iff)
  with segs g a p e show ?thesis by simp
qed

lemma sample_arn_region: "extractRegionFromLambdaArn sample_arn = ascii ''us-west-2''"
  unfolding sample_arn_def by code_simp

theorem extractRegion_segments_witness:
  "extractRegionFromLambdaArn sample_arn = ascii ''us-west-2'' \<and>
   split_colon sample_arn ! 3 = ascii ''us-west-2'' \<and>
   extractRegionFromLambdaArn (ascii ''ARN:aws:lambda:us-west-2:123456789012:function:foo'') = [] \<and>
   extractRegionFromLambdaArn (ascii ''arn:aws:lambda:us-west-2:12x:function:foo'') = [] \<and>
   extractRegionFromLambdaArn (ascii ''arn:aws:lambda:us-west-2:123456789012:function:'') = []"
proof -
  have 1: "\<not> prefix (ascii ''arn:aws:lambda:'')
             (ascii ''ARN:aws:lambda:us-west-2:123456789012:function:foo'')"
    by (simp add: ascii_def)
  have 2: "4 < length (split_colon (ascii ''arn:aws:lambda:us-west-2:12x:function:foo'')) \<and>
     \<not> list_all is_digit (split_colon (ascii ''arn:aws:lambda:us-west-2:12x:function:foo'') ! 4)"
    by code_simp
  have 3: "drop 6 (split_colon (ascii ''arn:aws:lambda:us-west-2:123456789012:function:'')) = [[]]"
    by code_simp
  have 4: "ascii ''us-west-2'' \<noteq> []"
    by (simp add: ascii_def)
  from extractRegion_segments [of sample_arn] sample_arn_region 4
  have "split_colon sample_arn ! 3 = ascii ''us-west-2''" by simp
  with extractRegion_segments [of "ascii ''ARN:aws:lambda:us-west-2:123456789012:function:foo''"]
    extractRegion_segments [of "ascii ''arn:aws:lambda:us-west-2:12x:function:foo''"]
    extractRegion_segments [of "ascii ''arn:aws:lambda:us-west-2:123456789012:function:''"]
    1 2 3 sample_arn_region
  show ?thesis by blast
qed

text \<open>
  The claim as stated fails on the ARN of the specification: the result is not empty and
  is not the third segment.
\<close>

theorem third_segment_counterexample:
  "\<not> (extractRegionFromLambdaArn sample_arn = [] \<or>
      extractRegionFromLambdaArn sample_arn = split_colon sample_arn ! 2)"
proof -
  have "split_colon sample_arn ! 2 = ascii ''lambda''"
    unfolding sample_arn_def by code_simp
  moreover have "ascii ''us-west-2'' \<noteq> ascii ''lambda''" "ascii ''us-west-2'' \<noteq> []"
    by (simp_all add: ascii_def)
  ultimately show ?thesis
    by (simp add: sample_arn_region)
qed

section \<open>Parsing what stringify wrote\<close>

text \<open>
  \<^verbatim>\<open>JSON.parse(JSON.stringify(v))\<close> is \<open>v\<close> for every value of the model: the scanner
  undoes QuoteJSONString on every string (lone surrogates and control characters
  included), the text has the tokens of the value, and the machine rebuilds the value
  from them.
\<close>

lemma hex_value_hex_digit:
  fixes n :: cu
  assumes "n < 16"
  shows "hex_value (hex_digit n) = Some n"
proof -
  from assms have "unat n < 16" by (simp add: word_less_nat_alt)
  then have "unat n \<in> {0..<16}" by simp
  then have "of_nat (unat n) \<in> (of_nat ` {0..<16} :: cu set)"
    by (rule imageI)
  then have "n \<in> (of_nat ` {0..<16} :: cu set)" by simp
  then consider "n = 0" | "n = 1" | "n = 2" | "n = 3" | "n = 4" | "n = 5" | "n = 6" | "n = 7"
    | "n = 8" | "n = 9" | "n = 10" | "n = 11" | "n = 12" | "n = 13" | "n = 14" | "n = 15"
    by (auto simp: atLeastLessThan_nat_numeral)
  then show ?thesis
    by cases (simp_all add: hex_value_def hex_digit_def)
qed

lemma nibble_less:
  fixes c :: cu
  shows "take_bit 4 c < 16" "drop_bit 12 c < 16"
proof -
  have "unat (take_bit 4 c) < 2 ^ 4"
    unfolding unsigned_take_bit_eq by (rule take_bit_nat_less_exp)
  then show "take_bit 4 c < 16" by (simp add: word_less_nat_alt)
  have "unat c < 2 ^ 16" using unsigned_less [of c] by simp
  then have "unat (drop_bit 12 c) < 2 ^ 4"
    unfolding unat_drop_bit_eq by (simp add: drop_bit_eq_div)
  then show "drop_bit 12 c < 16" by (simp add: word_less_nat_alt)
qed

lemma nibbles_join:
  fixes c :: cu
  shows "push_bit 12 (drop_bit 12 c) OR push_bit 8 (take_bit 4 (drop_bit 8 c)) OR
         push_bit 4 (take_bit 4 (drop_bit 4 c)) OR take_bit 4 c = c"
proof (rule bit_word_eqI)
  fix n
  assume n: "n < LENGTH(16)"
  consider "n < 4" | "4 \<le> n \<and> n < 8" | "8 \<le> n \<and> n < 12" | "12 \<le> n"
    by linarith
  then show "bit (push_bit 12 (drop_bit 12 c) OR push_bit 8 (take_bit 4 (drop_bit 8 c)) OR
         push_bit 4 (take_bit 4 (drop_bit 4 c)) OR take_bit 4 c) n = bit c n"
    using n by cases (auto simp: bit_simps)
qed

lemma hex4_unicode_escape:
  "hex4 (hex_digit (drop_bit 12 c)) (hex_digit (take_bit 4 (drop_bit 8 c)))
     (hex_digit (take_bit 4 (drop_bit 4 c))) (hex_digit (take_bit 4 c)) = Some c"
  by (simp add: hex4_def hex_value_hex_digit nibble_less nibbles_join)

lemma cons_unit_simps [simp]:
  "cons_unit u (Inl e) = Inl e" "cons_unit u (Inr (str, rest)) = Inr (u # str, rest)"
  by (simp_all add: cons_unit_def)

lemma scan_unicode_escape:
  "scan_string (unicode_escape c @ t) = cons_unit c (scan_string t)"
  by (simp add: unicode_escape_def hex4_unicode_escape)

lemma scan_quote_unit: "scan_string (quote_unit c @ t) = cons_unit c (scan_string t)"
proof -
  consider "c = 0x08" | "c = 0x09" | "c = 0x0A" | "c = 0x0C" | "c = 0x0D" | "c = 0x22"
    | "c = 0x5C"
    | "c \<notin> {0x08, 0x09, 0x0A, 0x0C, 0x0D, 0x22, 0x5C}"
      "c < 0x20 \<or> is_high_surrogate c \<or> is_low_surrogate c"
    | "c \<notin> {0x08, 0x09, 0x0A, 0x0C, 0x0D, 0x22, 0x5C}"
      "\<not> (c < 0x20 \<or> is_high_surrogate c \<or> is_low_surrogate c)"
    by blast
  then show ?thesis
  proof cases
    case 8
    then have "quote_unit c = unicode_escape c" by (simp add: quote_unit_def)
    then show ?thesis by (simp only: scan_unicode_escape)
  next
    case 9
    then have "quote_unit c = [c]" by (simp add: quote_unit_def)
    with 9 show ?thesis by simp
  qed (simp_all add: quote_unit_def unescape_def)
qed

lemma surrogate_plain:
  assumes "is_high_surrogate c \<or> is_low_surrogate c"
  shows "c \<noteq> 0x22" "c \<noteq> 0x5C" "\<not> c < 0x20"
  using assms
  by (auto simp: is_high_surrogate_def is_low_surrogate_def word_less_nat_alt word_le_nat_alt)

lemma scan_quote_units:
  "scan_string (quote_units s @ 0x22 # rest) = Inr (s, rest)"
proof (induction s rule: quote_units.induct)
  case 1
  show ?case by simp
next
  case (2 c)
  show ?case by (simp add: scan_quote_unit)
next
  case (3 c d s)
  show ?case
  proof (cases "is_high_surrogate c \<and> is_low_surrogate d")
    case True
    then have q: "quote_units (c # d # s) = c # d # quote_units s" by simp
    from True have "is_high_surrogate c \<or> is_low_surrogate c"
      "is_high_surrogate d \<or> is_low_surrogate d" by simp_all
    from surrogate_plain [OF this(1)] surrogate_plain [OF this(2)] "3.IH"(1) [OF True]
    show ?thesis unfolding q by simp
  next
    case False
    then have q: "quote_units (c # d # s) = quote_unit c @ quote_units (d # s)"
      by (simp only: quote_units.simps if_False)
    from "3.IH"(2) [OF False] show ?thesis
      unfolding q by (simp add: scan_quote_unit del: quote_units.simps)
  qed
qed

lemma cons_tokens_simps [simp]:
  "cons_tokens [] r = r"
  "cons_token t (cons_tokens ts r) = cons_tokens (t # ts) r"
  "cons_tokens ts (cons_tokens ts' r) = cons_tokens (ts @ ts') r"
  "cons_tokens ts (cons_token t r) = cons_tokens (ts @ [t]) r"
  by (simp_all add: cons_tokens_def cons_token_def split: sum.splits)

lemma cons_token_eq: "cons_token t r = cons_tokens [t] r"
  by (simp add: cons_tokens_def cons_token_def split: sum.splits)

lemma lex_quoted: "lex (QuoteJSONString s @ rest) = cons_tokens [TString s] (lex rest)"
  by (simp add: QuoteJSONString_def is_json_ws_def scan_quote_units cons_token_eq)

lemma lex_punct:
  "lex (0x7B # rest) = cons_tokens [LBrace] (lex rest)"
  "lex (0x7D # rest) = cons_tokens [RBrace] (lex rest)"
  "lex (0x3A # rest) = cons_tokens [Colon] (lex rest)"
  "lex (0x2C # rest) = cons_tokens [Comma] (lex rest)"
  by (simp_all add: is_json_ws_def cons_token_eq)

lemma lex_names:
  "lex (ascii ''true'' @ rest) = cons_tokens [TTrue] (lex rest)"
  "lex (ascii ''false'' @ rest) = cons_tokens [TFalse] (lex rest)"
  "lex (ascii ''null'' @ rest) = cons_tokens [TNull] (lex rest)"
  by (simp_all add: ascii_def is_json_ws_def cons_token_eq)

lemma lex_stringify:
  "lex (JSON_stringify v @ rest) = cons_tokens (tokens v) (lex rest)"
  "lex (stringify_members ms @ rest) = cons_tokens (member_tokens ms) (lex rest)"
proof (induction v and ms arbitrary: rest and rest rule: JSON_stringify_stringify_members.induct)
  case 1
  show ?case by (simp add: lex_names)
next
  case (2 b)
  show ?case by (simp add: lex_names)
next
  case (3 s)
  show ?case by (simp add: lex_quoted)
next
  case (4 ms)
  then show ?case by (simp add: lex_punct del: lex.simps)
next
  case 5
  show ?case by simp
next
  case (6 k v)
  then show ?case by (simp add: lex_quoted lex_punct del: lex.simps)
next
  case (7 k v m ms)
  then show ?case by (simp add: lex_quoted lex_punct del: lex.simps)
qed

lemma run_append:
  "run st (ts @ ts') = (case run st ts of Inl e \<Rightarrow> Inl e | Inr st' \<Rightarrow> run st' ts')"
  by (induction ts arbitrary: st) (auto split: sum.splits)

lemma run_tokens:
  "run (Want_value fs) (tokens v @ ts) = run (deliver v fs) ts"
  "ms \<noteq> [] \<Longrightarrow>
     run (Want_key pre fs) (member_tokens ms @ RBrace # ts) = run (deliver (JObj (pre @ ms)) fs) ts"
proof (induction v and ms arbitrary: fs ts and pre fs ts rule: tokens_member_tokens.induct)
  case 1
  show ?case by simp
next
  case (2 b)
  show ?case by simp
next
  case (3 s)
  show ?case by simp
next
  case (4 ms)
  show ?case
  proof (cases ms)
    case Nil
    then show ?thesis by simp
  next
    case (Cons m ms')
    obtain k v where m: "m = (k, v)" by (cases m)
    have "run (After_open fs) (member_tokens ms @ RBrace # ts) =
          run (Want_key [] fs) (member_tokens ms @ RBrace # ts)"
      unfolding Cons m by (cases ms') simp_all
    moreover from Cons have "ms \<noteq> []" by simp
    from "4.IH" [OF this, of "[]" fs ts]
    have "run (Want_key [] fs) (member_tokens ms @ RBrace # ts) = run (deliver (JObj ms) fs) ts"
      by simp
    ultimately show ?thesis by simp
  qed
next
  case 5
  then show ?case by simp
next
  case (6 k v)
  from "6.IH" [of "(pre, k) # fs" "RBrace # ts"] show ?case by simp
next
  case (7 k v m ms)
  have "m # ms \<noteq> []" by simp
  from "7.IH"(1) [of "(pre, k) # fs" "Comma # member_tokens (m # ms) @ RBrace # ts"]
    "7.IH"(2) [OF this, of "pre @ [(k, v)]" fs ts]
  show ?case by simp
qed

lemma JSON_parse_stringify: "JSON_parse (JSON_stringify v) = Inr v"
proof -
  have "lex (JSON_stringify v @ []) = Inr (tokens v)"
    unfolding lex_stringify by (simp add: cons_tokens_def)
  moreover have "run (Want_value []) (tokens v @ []) = Inr (Done v)"
    unfolding run_tokens by simp
  ultimately show ?thesis by (simp add: JSON_parse_def)
qed

section \<open>Submit\<close>

lemma handleSubmit_invalid:
  assumes "\<not> fst (validateForm st)"
  shows "handleSubmit st = st\<lparr>errors := newErrors_of (config st), trace := trace st @ [PreventDefault]\<rparr>"
  using assms by (simp add: handleSubmit_def validateForm_result Let_def)

text \<open>
  C3. When \<open>validateForm\<close> returns false, \<open>handleSubmit\<close> changes the state in two
  places only: \<open>errors\<close> holds the recomputed mapping, which is not empty, and the
  submit event's default was prevented. \<open>localStorage\<close> and the configuration are as
  before, and no other call is made: the authentication SDK is not configured,
  \<open>setEditingConfig\<close> and \<open>onConfigSet\<close> are not called.
\<close>

theorem invalid_submit_only_sets_errors:
  assumes "\<not> fst (validateForm st)"
  shows "handleSubmit st =
           st\<lparr>errors := newErrors_of (config st), trace := trace st @ [PreventDefault]\<rparr> \<and>
         localStorage (handleSubmit st) = localStorage st \<and>
         config (handleSubmit st) = config st \<and>
         new_calls st (handleSubmit st) = [PreventDefault] \<and>
         errors (handleSubmit st) = errors (snd (validateForm st)) \<and>
         errors (handleSubmit st) \<noteq> []"
  using assms by (simp add: handleSubmit_invalid new_calls_def) (simp add: validateForm_result)

theorem invalid_submit_only_sets_errors_witness:
  "\<not> fst (validateForm blank_pool_state) \<and>
   localStorage (handleSubmit blank_pool_state) = localStorage blank_pool_state \<and>
   new_calls blank_pool_state (handleSubmit blank_pool_state) = [PreventDefault] \<and>
   map_of (errors (handleSubmit blank_pool_state)) ''userPoolId'' = Some msg_userPoolId"
proof -
  have b: "blank [0x20, 0x3000]"
    by (simp add: blank_def char_class_defs)
  then have e: "map_of (newErrors_of (config blank_pool_state)) ''userPoolId'' = Some msg_userPoolId"
    by (simp add: map_of_newErrors blank_pool_state_def complete_state_def complete_config_def)
  then have "newErrors_of (config blank_pool_state) \<noteq> []" by auto
  then have v: "\<not> fst (validateForm blank_pool_state)"
    by (simp add: validateForm_result)
  from invalid_submit_only_sets_errors [OF v] v e show ?thesis
    by (simp add: validateForm_result new_calls_def)
qed

lemma parsed_of_config_json:
  "parsed_of_json (config_json c) =
     Some \<lparr>parsed_cognito = cognito c, parsed_bedrock = bedrock c,
           parsed_strands = Some (strands c)\<rparr>"
  by (simp add: config_json_def get_prop_def string_prop_def bool_prop_def ascii_def)

lemma stringify_config_truthy: "truthy (JSON_stringify (config_json c))"
  by (simp add: config_json_def truthy_def)

lemma load_stored:
  assumes "localStorage s ''appConfig'' = Some (JSON_stringify (config_json c))"
  shows "load_effect True s =
           Inr (s\<lparr>config := c,
                  trace := trace s @ [Console_log (ascii ''loading configuration'')]\<rparr>)"
    and "load_effect False s = Inr (configureAmplify c s)"
  using assms
  by (simp_all add: load_effect_def stringify_config_truthy JSON_parse_stringify
      parsed_of_config_json configureAmplify_def)

lemma handleSubmit_valid:
  assumes "fst (validateForm st)"
  shows "handleSubmit st =
     st\<lparr>errors := [],
        localStorage := (localStorage st)
          (''appConfig'' \<mapsto> JSON_stringify (config_json (config st))),
        trace := trace st @
          [PreventDefault,
           Amplify_configure
             \<lparr>auth_region = cognito_region (cognito (config st)),
              auth_userPoolId = userPoolId (cognito (config st)),
              auth_userPoolClientId = userPoolClientId (cognito (config st)),
              auth_identityPoolId = identityPoolId (cognito (config st))\<rparr>,
           SetEditingConfig False, OnConfigSet]\<rparr>"
  using assms by (simp add: handleSubmit_def validateForm_result Let_def configureAmplify_def)

text \<open>
  C2. When \<open>validateForm\<close> returns true, \<open>handleSubmit\<close> stores the text of the whole
  configuration under \<open>appConfig\<close>, over whatever was there, and calls, after
  \<open>preventDefault\<close> and in this order, \<open>Amplify.configure\<close> with the four Cognito
  values, \<open>setEditingConfig(false)\<close> and \<open>onConfigSet()\<close>, the last one once. The stored text parses back to the record
  submitted, with its \<open>strands\<close> part present, and the loading effect run in edit mode
  on any state with this stored text puts exactly the submitted configuration in
  \<open>config\<close>.
\<close>

theorem valid_submit_persists_and_round_trips:
  assumes "fst (validateForm st)"
  shows "localStorage (handleSubmit st) =
           (localStorage st)(''appConfig'' \<mapsto> JSON_stringify (config_json (config st))) \<and>
         new_calls st (handleSubmit st) =
           [PreventDefault,
            Amplify_configure
              \<lparr>auth_region = cognito_region (cognito (config st)),
               auth_userPoolId = userPoolId (cognito (config st)),
               auth_userPoolClientId = userPoolClientId (cognito (config st)),
               auth_identityPoolId = identityPoolId (cognito (config st))\<rparr>,
            SetEditingConfig False, OnConfigSet] \<and>
         count_list (new_calls st (handleSubmit st)) OnConfigSet = 1 \<and>
         config (handleSubmit st) = config st \<and>
         Option.bind (localStorage (handleSubmit st) ''appConfig'')
           (\<lambda>text. case JSON_parse text of Inl e \<Rightarrow> None | Inr j \<Rightarrow> parsed_of_json j) =
           Some \<lparr>parsed_cognito = cognito (config st), parsed_bedrock = bedrock (config st),
                 parsed_strands = Some (strands (config st))\<rparr> \<and>
         (\<forall>s. localStorage s ''appConfig'' = localStorage (handleSubmit st) ''appConfig'' \<longrightarrow>
            load_effect True s =
              Inr (s\<lparr>config := config st,
                     trace := trace s @ [Console_log (ascii ''loading configuration'')]\<rparr>))"
proof -
  have "localStorage (handleSubmit st) ''appConfig'' =
        Some (JSON_stringify (config_json (config st)))"
    by (simp add: handleSubmit_valid [OF assms])
  then show ?thesis
    by (simp add: handleSubmit_valid [OF assms] new_calls_def load_stored
        JSON_parse_stringify parsed_of_config_json)
qed

lemma complete_state_valid: "fst (validateForm complete_state)"
proof -
  have "\<not> blank (ascii ''c1'')" "\<not> blank (ascii ''r1'')"
    "\<not> blank (ascii ''i1'')" "\<not> blank (ascii ''a1'')" "\<not> blank (ascii ''b1'')"
    "\<not> blank (ascii ''r2'')" "\<not> blank (ascii ''p1'')"
    by (simp_all add: blank_def ascii_def char_class_defs)
  then have "error_entries complete_state = Map.empty"
    by (simp add: error_entries_eq fun_eq_iff map_of_newErrors complete_state_def
        complete_config_def strands_backfill_def)
  then show ?thesis by (simp add: validateForm_true_iff)
qed

theorem valid_submit_persists_and_round_trips_witness:
  "fst (validateForm complete_state) \<and>
   localStorage (handleSubmit complete_state) ''appConfig'' =
     Some (JSON_stringify (config_json complete_config)) \<and>
   count_list (new_calls complete_state (handleSubmit complete_state)) OnConfigSet = 1 \<and>
   map_sum id config (load_effect True (handleSubmit complete_state)) = Inr complete_config"
proof -
  have c: "config complete_state = complete_config"
    by (simp add: complete_state_def)
  from valid_submit_persists_and_round_trips [OF complete_state_valid] complete_state_valid c
  show ?thesis by simp
qed

section \<open>Cancel\<close>

lemma apply_edit_frame:
  "localStorage (apply_edit e st) = localStorage st" "trace (apply_edit e st) = trace st"
  by (cases e; simp add: after_render_frame input_onChange_def select_onChange_def)+

lemma fold_apply_edit_frame:
  "localStorage (fold apply_edit es st) = localStorage st"
  "trace (fold apply_edit es st) = trace st"
  by (induction es arbitrary: st) (simp_all add: apply_edit_frame)

text \<open>
  C6. After any sequence of edits, the cancel button calls \<open>setEditingConfig(false)\<close>
  and nothing else: \<open>localStorage\<close> is what it was before the edits, \<open>errors\<close> is
  not recomputed, and the edited configuration stays in memory only.
\<close>

theorem cancel_keeps_storage:
  "localStorage (cancel_onClick (fold apply_edit es st)) = localStorage st \<and>
   new_calls st (cancel_onClick (fold apply_edit es st)) = [SetEditingConfig False] \<and>
   errors (cancel_onClick (fold apply_edit es st)) = errors (fold apply_edit es st) \<and>
   config (cancel_onClick (fold apply_edit es st)) = config (fold apply_edit es st)"
  by (simp add: cancel_onClick_def fold_apply_edit_frame new_calls_def)

theorem cancel_keeps_storage_witness:
  "localStorage
     (cancel_onClick (fold apply_edit stored_edits
        (complete_state\<lparr>localStorage := [''appConfig'' \<mapsto> ascii ''old'']\<rparr>))) ''appConfig'' =
   Some (ascii ''old'')"
  using cancel_keeps_storage
    [of stored_edits "complete_state\<lparr>localStorage := [''appConfig'' \<mapsto> ascii ''old'']\<rparr>"]
  by simp

section \<open>The derived region\<close>

lemma rmatch_arnPattern_Nil: "rmatch arnPattern [] = None"
  by (simp add: arnPattern_def lit_def ascii_def)

lemma extract_Some: "rmatch arnPattern v = Some g \<Longrightarrow> extractRegionFromLambdaArn v = g \<and> g \<noteq> []"
  using rmatch_arnPattern_shape [of v g]
  by (auto simp: extractRegionFromLambdaArn_def truthy_def)

lemma extract_None: "rmatch arnPattern v = None \<Longrightarrow> extractRegionFromLambdaArn v = []"
  by (simp add: extractRegionFromLambdaArn_def)

lemma lambdaArn_edit:
  assumes "enabled (strands (config st))" "v \<noteq> lambdaArn (strands (config st))"
  shows "apply_edit (Input Strands_lambdaArn v) st =
           region_effect (input_onChange Strands_lambdaArn v st)"
  using assms by (simp add: after_render_def input_onChange_def)

lemma lambdaArn_edit_match:
  assumes "enabled (strands (config st))" "v \<noteq> lambdaArn (strands (config st))"
    "rmatch arnPattern v = Some g"
  shows "strands_region (strands (config (apply_edit (Input Strands_lambdaArn v) st))) = g"
    "region_input_disabled (apply_edit (Input Strands_lambdaArn v) st)"
proof -
  from assms(3) have "v \<noteq> []" using rmatch_arnPattern_Nil by auto
  with extract_Some [OF assms(3)] assms(1)
  have "region_effect (input_onChange Strands_lambdaArn v st) =
        (input_onChange Strands_lambdaArn v st)
          \<lparr>config := handleInputChange Strands_region g
             (config (input_onChange Strands_lambdaArn v st))\<rparr>"
    by (simp add: region_effect_def input_onChange_def truthy_def)
  with extract_Some [OF assms(3)] show
    "strands_region (strands (config (apply_edit (Input Strands_lambdaArn v) st))) = g"
    "region_input_disabled (apply_edit (Input Strands_lambdaArn v) st)"
    unfolding lambdaArn_edit [OF assms(1,2)]
    by (simp_all add: region_input_disabled_def input_onChange_def truthy_def)
qed

lemma lambdaArn_edit_no_match:
  assumes "enabled (strands (config st))" "v \<noteq> lambdaArn (strands (config st))"
    "rmatch arnPattern v = None"
  shows "strands_region (strands (config (apply_edit (Input Strands_lambdaArn v) st))) =
           strands_region (strands (config st))"
    "\<not> region_input_disabled (apply_edit (Input Strands_lambdaArn v) st)"
  unfolding lambdaArn_edit [OF assms(1,2)] using extract_None [OF assms(3)]
  by (simp_all add: region_effect_def region_input_disabled_def input_onChange_def truthy_def)

lemma sample_arn_match: "rmatch arnPattern sample_arn = Some (ascii ''us-west-2'')"
  unfolding sample_arn_def by code_simp

text \<open>
  C4. With the Strands agent enabled, let the Lambda ARN input change to a new value
  \<open>v\<close>. If \<open>v\<close> has the form of the pattern with region token \<open>g\<close>, the Strands
  region becomes \<open>g\<close> and the region input is disabled; for the ARN of the
  specification the region is \<open>us-west-2\<close>. If \<open>v\<close> does not have the form, the region
  keeps its value and the region input is not disabled. Having the form is what the
  regular expression of the source decides, \<open>g\<close> being its capture group.
\<close>

theorem derived_region_rule:
  assumes "enabled (strands (config st))" and "v \<noteq> lambdaArn (strands (config st))"
  shows "(\<forall>g. lambda_arn v g \<longrightarrow>
            strands_region (strands (config (apply_edit (Input Strands_lambdaArn v) st))) = g \<and>
            region_input_disabled (apply_edit (Input Strands_lambdaArn v) st)) \<and>
         ((\<forall>g. \<not> lambda_arn v g) \<longrightarrow>
            strands_region (strands (config (apply_edit (Input Strands_lambdaArn v) st))) =
              strands_region (strands (config st)) \<and>
            \<not> region_input_disabled (apply_edit (Input Strands_lambdaArn v) st)) \<and>
         (v = sample_arn \<longrightarrow>
            strands_region (strands (config (apply_edit (Input Strands_lambdaArn v) st))) =
              ascii ''us-west-2'' \<and>
            region_input_disabled (apply_edit (Input Strands_lambdaArn v) st)) \<and>
         (\<forall>g. lambda_arn v g = (rmatch arnPattern v = Some g))"
proof -
  have "rmatch arnPattern v = None" if "\<forall>g. \<not> lambda_arn v g"
    using that by (cases "rmatch arnPattern v") (simp_all add: rmatch_arnPattern_iff)
  then have none: "strands_region (strands (config (apply_edit (Input Strands_lambdaArn v) st))) =
      strands_region (strands (config st)) \<and>
      \<not> region_input_disabled (apply_edit (Input Strands_lambdaArn v) st)"
    if "\<forall>g. \<not> lambda_arn v g"
    using that lambdaArn_edit_no_match [OF assms] by blast
  have some: "strands_region (strands (config (apply_edit (Input Strands_lambdaArn v) st))) = g \<and>
      region_input_disabled (apply_edit (Input Strands_lambdaArn v) st)"
    if "lambda_arn v g" for g
    using that lambdaArn_edit_match [OF assms, of g] by (simp only: rmatch_arnPattern_iff)
  have "lambda_arn sample_arn (ascii ''us-west-2'')"
    using sample_arn_match by (simp only: rmatch_arnPattern_iff)
  then have sample: "strands_region (strands (config (apply_edit (Input Strands_lambdaArn v) st))) =
      ascii ''us-west-2'' \<and>
      region_input_disabled (apply_edit (Input Strands_lambdaArn v) st)"
    if "v = sample_arn"
    using that some [of "ascii ''us-west-2''"] by (simp only:)
  show ?thesis
    using none some sample by (simp only: rmatch_arnPattern_iff) blast
qed

theorem derived_region_rule_witness:
  "strands_region (strands (config (apply_edit (Input Strands_lambdaArn sample_arn) strands_state)))
     = ascii ''us-west-2'' \<and>
   region_input_disabled (apply_edit (Input Strands_lambdaArn sample_arn) strands_state) \<and>
   strands_region (strands (config
     (apply_edit (Input Strands_lambdaArn (ascii ''not-an-arn'')) strands_state))) = ascii ''eu'' \<and>
   \<not> region_input_disabled
     (apply_edit (Input Strands_lambdaArn (ascii ''not-an-arn'')) strands_state)"
proof -
  have e: "enabled (strands (config strands_state))"
    by (simp add: strands_state_def complete_state_def)
  have n: "sample_arn \<noteq> lambdaArn (strands (config strands_state))"
    "ascii ''not-an-arn'' \<noteq> lambdaArn (strands (config strands_state))"
    by (simp_all add: strands_state_def complete_state_def sample_arn_def ascii_def)
  have "rmatch arnPattern (ascii ''not-an-arn'') = None"
    by code_simp
  then have m: "\<forall>g. \<not> lambda_arn (ascii ''not-an-arn'') g"
    by (simp flip: rmatch_arnPattern_iff)
  have a: "lambda_arn sample_arn (ascii ''us-west-2'')"
    using sample_arn_match by (simp add: rmatch_arnPattern_iff)
  have r: "strands_region (strands (config strands_state)) = ascii ''eu''"
    by (simp add: strands_state_def complete_state_def)
  from derived_region_rule [OF e n(1)] a
  have 1: "strands_region (strands (config
      (apply_edit (Input Strands_lambdaArn sample_arn) strands_state))) = ascii ''us-west-2'' \<and>
    region_input_disabled (apply_edit (Input Strands_lambdaArn sample_arn) strands_state)"
    by (simp only: simp_thms)
  from derived_region_rule [OF e n(2)] m
  have 2: "strands_region (strands (config
      (apply_edit (Input Strands_lambdaArn (ascii ''not-an-arn'')) strands_state))) =
      strands_region (strands (config strands_state)) \<and>
    \<not> region_input_disabled
      (apply_edit (Input Strands_lambdaArn (ascii ''not-an-arn'')) strands_state)"
    by (simp only: simp_thms)
  from 1 2 r show ?thesis by (simp only: simp_thms)
qed

section \<open>Load\<close>

lemma load_effect_parsed:
  assumes "localStorage st ''appConfig'' = Some text" "truthy text"
    "JSON_parse text = Inr j" "parsed_of_json j = Some p"
  shows "load_effect False st =
           Inr (st\<lparr>trace := trace st @
             [Amplify_configure
                \<lparr>auth_region = cognito_region (parsed_cognito p),
                 auth_userPoolId = userPoolId (parsed_cognito p),
                 auth_userPoolClientId = userPoolClientId (parsed_cognito p),
                 auth_identityPoolId = identityPoolId (parsed_cognito p)\<rparr>]\<rparr>)"
    and "load_effect True st =
           Inr (st\<lparr>config :=
                    \<lparr>cognito = parsed_cognito p, bedrock = parsed_bedrock p,
                     strands = (case parsed_strands p of
                                  None \<Rightarrow> strands_backfill | Some sd \<Rightarrow> sd)\<rparr>,
                  trace := trace st @ [Console_log (ascii ''loading configuration'')]\<rparr>)"
  using assms by (simp_all add: load_effect_def configureAmplify_def Let_def)

text \<open>
  C5, amended. When \<open>localStorage\<close> holds a configuration and the component is not in
  edit mode, the loading effect calls \<open>Amplify.configure\<close> with the four stored Cognito
  values and does nothing else: the state is otherwise unchanged and \<open>onConfigSet\<close> is
  not called (it is called by a successful submit only).
\<close>

theorem load_applies_configuration_only:
  assumes "localStorage st ''appConfig'' = Some text" and "truthy text"
    and "JSON_parse text = Inr j" and "parsed_of_json j = Some p"
  shows "load_effect False st =
           Inr (st\<lparr>trace := trace st @
             [Amplify_configure
                \<lparr>auth_region = cognito_region (parsed_cognito p),
                 auth_userPoolId = userPoolId (parsed_cognito p),
                 auth_userPoolClientId = userPoolClientId (parsed_cognito p),
                 auth_identityPoolId = identityPoolId (parsed_cognito p)\<rparr>]\<rparr>) \<and>
         map_sum id (new_calls st) (load_effect False st) =
           Inr [Amplify_configure
                  \<lparr>auth_region = cognito_region (parsed_cognito p),
                   auth_userPoolId = userPoolId (parsed_cognito p),
                   auth_userPoolClientId = userPoolClientId (parsed_cognito p),
                   auth_identityPoolId = identityPoolId (parsed_cognito p)\<rparr>] \<and>
         map_sum id (\<lambda>st'. count_list (new_calls st st') OnConfigSet) (load_effect False st) =
           Inr 0"
  by (simp add: load_effect_parsed(1) [OF assms] new_calls_def)

lemma stored_state_text:
  "localStorage stored_state ''appConfig'' = Some (JSON_stringify (config_json complete_config))"
  by (simp add: stored_state_def initial_state_def)

theorem load_applies_configuration_only_witness:
  "map_sum id (new_calls stored_state) (load_effect False stored_state) =
     Inr [Amplify_configure
            \<lparr>auth_region = ascii ''r1'', auth_userPoolId = ascii ''p1'',
             auth_userPoolClientId = ascii ''c1'', auth_identityPoolId = ascii ''i1''\<rparr>]"
  using load_applies_configuration_only
    [OF stored_state_text stringify_config_truthy JSON_parse_stringify parsed_of_config_json]
  by (simp add: complete_config_def new_calls_def)

text \<open>
  The claim as stated fails on a state whose storage holds a complete configuration:
  the effect returns with one call made, the one to the SDK.
\<close>

theorem load_signals_completion_counterexample:
  "load_effect False stored_state = Inr (configureAmplify complete_config stored_state) \<and>
   OnConfigSet \<notin> set (trace (configureAmplify complete_config stored_state))"
  by (simp add: load_stored(2) [OF stored_state_text])
    (simp add: configureAmplify_def stored_state_def initial_state_def)

text \<open>
  C7. When the stored object has no \<open>strands\<close> property, the loading effect in edit
  mode puts in \<open>config\<close> the stored \<open>cognito\<close> and \<open>bedrock\<close> parts as they are read
  from the stored object, and a \<open>strands\<close> part with \<open>enabled\<close> false, an empty
  Lambda ARN and region, and the default agent name, the one of the initial state.
\<close>

theorem load_backfills_missing_strands:
  assumes "localStorage st ''appConfig'' = Some text" and "truthy text"
    and "JSON_parse text = Inr (JObj ms)" and "get_prop ms ''strands'' = None"
    and "parsed_of_json (JObj ms) = Some p"
  shows "load_effect True st =
           Inr (st\<lparr>config :=
                    \<lparr>cognito = parsed_cognito p, bedrock = parsed_bedrock p,
                     strands =
                       \<lparr>enabled = False, lambdaArn = [],
                        strands_agentName =
                          ascii ''Strands'' @ [0x30A8, 0x30FC, 0x30B8, 0x30A7, 0x30F3, 0x30C8],
                        strands_region = []\<rparr>\<rparr>,
                  trace := trace st @ [Console_log (ascii ''loading configuration'')]\<rparr>) \<and>
         Option.bind (get_prop ms ''cognito'') cognito_of_json = Some (parsed_cognito p) \<and>
         Option.bind (get_prop ms ''bedrock'') bedrock_of_json = Some (parsed_bedrock p) \<and>
         strands_agentName (strands initial_config) =
           ascii ''Strands'' @ [0x30A8, 0x30FC, 0x30B8, 0x30A7, 0x30F3, 0x30C8]"
proof -
  from assms(4,5) have p: "parsed_strands p = None"
    "Option.bind (get_prop ms ''cognito'') cognito_of_json = Some (parsed_cognito p)"
    "Option.bind (get_prop ms ''bedrock'') bedrock_of_json = Some (parsed_bedrock p)"
    by (auto split: option.splits)
  from load_effect_parsed(2) [OF assms(1,2,3,5)] p show ?thesis
    by (simp add: strands_backfill_def initial_config_def)
qed

theorem load_backfills_missing_strands_witness:
  "map_sum id config (load_effect True legacy_state) = Inr complete_config"
proof -
  have 1: "localStorage legacy_state ''appConfig'' = Some (JSON_stringify legacy_json)"
    by (simp add: legacy_state_def initial_state_def)
  have 2: "truthy (JSON_stringify legacy_json)"
    by (simp add: legacy_json_def truthy_def)
  have 3: "JSON_parse (JSON_stringify legacy_json) =
     Inr (JObj
      [(ascii ''cognito'', JObj
         [(ascii ''userPoolId'', JStr (ascii ''p1'')),
          (ascii ''userPoolClientId'', JStr (ascii ''c1'')),
          (ascii ''region'', JStr (ascii ''r1'')),
          (ascii ''identityPoolId'', JStr (ascii ''i1''))]),
       (ascii ''bedrock'', JObj
         [(ascii ''agentName'', JStr []),
          (ascii ''agentId'', JStr (ascii ''a1'')),
          (ascii ''agentAliasId'', JStr (ascii ''b1'')),
          (ascii ''region'', JStr (ascii ''r2''))])])"
    unfolding JSON_parse_stringify by (simp add: legacy_json_def)
  have 4: "get_prop
      [(ascii ''cognito'', JObj
         [(ascii ''userPoolId'', JStr (ascii ''p1'')),
          (ascii ''userPoolClientId'', JStr (ascii ''c1'')),
          (ascii ''region'', JStr (ascii ''r1'')),
          (ascii ''identityPoolId'', JStr (ascii ''i1''))]),
       (ascii ''bedrock'', JObj
         [(ascii ''agentName'', JStr []),
          (ascii ''agentId'', JStr (ascii ''a1'')),
          (ascii ''agentAliasId'', JStr (ascii ''b1'')),
          (ascii ''region'', JStr (ascii ''r2''))])] ''strands'' = None"
    by (simp add: get_prop_def ascii_def)
  have 5: "parsed_of_json (JObj
      [(ascii ''cognito'', JObj
         [(ascii ''userPoolId'', JStr (ascii ''p1'')),
          (ascii ''userPoolClientId'', JStr (ascii ''c1'')),
          (ascii ''region'', JStr (ascii ''r1'')),
          (ascii ''identityPoolId'', JStr (ascii ''i1''))]),
       (ascii ''bedrock'', JObj
         [(ascii ''agentName'', JStr []),
          (ascii ''agentId'', JStr (ascii ''a1'')),
          (ascii ''agentAliasId'', JStr (ascii ''b1'')),
          (ascii ''region'', JStr (ascii ''r2''))])]) =
     Some \<lparr>parsed_cognito = cognito complete_config, parsed_bedrock = bedrock complete_config,
           parsed_strands = None\<rparr>"
    by (simp add: get_prop_def string_prop_def complete_config_def ascii_def)
  from load_backfills_missing_strands [OF 1 2 3 4 5] show ?thesis
    by (simp add: complete_config_def strands_backfill_def)
qed

section \<open>The preview frame\<close>

text \<open>
  C9. With the frame attached, after the input changes from \<open>a\<close> to \<open>b\<close> the surface
  holds \<open>b\<close>. The component is then in the state it would be in had \<open>a\<close> never been
  shown, and in the same state whatever \<open>a\<close> was: nothing of \<open>a\<close> remains.
\<close>

theorem preview_replaces_content:
  "PreviewIframe_effect b (PreviewIframe_effect a p) = PreviewIframe_effect b p \<and>
   PreviewIframe_effect b (PreviewIframe_effect a p) =
     PreviewIframe_effect b (PreviewIframe_effect a' p) \<and>
   (iframeRef p \<noteq> None \<longrightarrow>
      surface_content (PreviewIframe_effect b (PreviewIframe_effect a p)) = Some b)"
  by (cases "iframeRef p") (simp_all add: PreviewIframe_effect_def surface_content_def)

theorem preview_replaces_content_witness:
  "surface_content
     (PreviewIframe_effect (ascii ''<b>B</b>'')
        (PreviewIframe_effect (ascii ''<p>A</p>'') \<lparr>iframeRef = Some rendered_iframe\<rparr>)) =
   Some (ascii ''<b>B</b>'')"
  using preview_replaces_content
    [of "ascii ''<b>B</b>''" "ascii ''<p>A</p>''" "\<lparr>iframeRef = Some rendered_iframe\<rparr>"]
  by (simp add: PreviewIframe_effect_def surface_content_def)

end
